theory Spec2Isabelle
  imports
    Main
    "HOL-Library.List_Lexorder"
    "HOL-Library.Char_ord"
    "HOL-Library.AList"
    "HOL-Library.Sublist"
begin

section \<open>JavaScript strings and arrays\<close>

text \<open>
  A JavaScript string is modelled as a \<^typ>\<open>string\<close>; one \<^typ>\<open>char\<close> stands for one
  UTF-16 code unit below \<open>0x100\<close>, so the order of \<open>HOL-Library.Char_ord\<close> is the
  order of code units and the lexicographic order of
  \<open>HOL-Library.List_Lexorder\<close> is the order \<^verbatim>\<open>Array.prototype.sort()\<close> uses
  when it is called without a comparator. Code units from \<open>0x100\<close> on (and with them
  surrogates) are outside the model.
\<close>

definition startsWith :: "string \<Rightarrow> string \<Rightarrow> bool" where
  "startsWith s p = (take (length p) s = p)"

definition endsWith :: "string \<Rightarrow> string \<Rightarrow> bool" where
  "endsWith s p = (length p \<le> length s \<and> drop (length s - length p) s = p)"

text \<open>\<^verbatim>\<open>Array.prototype.join(sep)\<close> on an array of strings.\<close>

fun join :: "string list \<Rightarrow> string \<Rightarrow> string" where
  "join [] sep = []"
| "join [x] sep = x"
| "join (x # y # ys) sep = x @ sep @ join (y # ys) sep"

text \<open>\<^verbatim>\<open>x || []\<close> on an array that may be \<^verbatim>\<open>null\<close> or \<^verbatim>\<open>undefined\<close>
  (an array, even an empty one, is truthy).\<close>

definition or_empty :: "'a list option \<Rightarrow> 'a list" where
  "or_empty x = (case x of None \<Rightarrow> [] | Some xs \<Rightarrow> xs)"

text \<open>\<^verbatim>\<open>String(n)\<close> for a non-negative integer \<open>n\<close>: its decimal digits.\<close>

definition digit_char :: "nat \<Rightarrow> char" where
  "digit_char d = char_of (48 + d)"

fun String_nat :: "nat \<Rightarrow> string" where
  "String_nat n = (if n < 10 then [digit_char n] else String_nat (n div 10) @ [digit_char (n mod 10)])"

declare String_nat.simps [simp del]

text \<open>\<^verbatim>\<open>s.padStart(targetLength, c)\<close> with a one-character pad string.\<close>

definition padStart :: "string \<Rightarrow> nat \<Rightarrow> char \<Rightarrow> string" where
  "padStart s targetLength c = replicate (targetLength - length s) c @ s"

text \<open>\<^verbatim>\<open>String.prototype.trim()\<close>: the white space and line terminators of ECMAScript
  that lie below \<open>0x100\<close>.\<close>

definition isWhiteSpace :: "char \<Rightarrow> bool" where
  "isWhiteSpace c = (c \<in> set [CHR 0x09, CHR 0x0A, CHR 0x0B, CHR 0x0C, CHR 0x0D, CHR 0x20, CHR 0xA0])"

definition trim :: "string \<Rightarrow> string" where
  "trim s = rev (dropWhile isWhiteSpace (rev (dropWhile isWhiteSpace s)))"

subsection \<open>\<^verbatim>\<open>JSON.stringify\<close> on arrays of strings\<close>

definition hexdigit :: "nat \<Rightarrow> char" where
  "hexdigit d = (if d < 10 then char_of (48 + d) else char_of (87 + d))"

definition UnicodeEscape :: "char \<Rightarrow> string" where
  "UnicodeEscape c =
     (let n = (of_char c :: nat)
      in [CHR 0x5C, CHR ''u'', hexdigit (n div 4096), hexdigit (n div 256 mod 16),
          hexdigit (n div 16 mod 16), hexdigit (n mod 16)])"

text \<open>One code unit of \<^verbatim>\<open>QuoteJSONString\<close>: the seven characters with a short escape,
  the other control characters as \<^verbatim>\<open>\u00XX\<close>, every other character as it is.\<close>

definition QuoteJSONChar :: "char \<Rightarrow> string" where
  "QuoteJSONChar c =
     (if c = CHR 0x08 then [CHR 0x5C, CHR ''b'']
      else if c = CHR 0x09 then [CHR 0x5C, CHR ''t'']
      else if c = CHR 0x0A then [CHR 0x5C, CHR ''n'']
      else if c = CHR 0x0C then [CHR 0x5C, CHR ''f'']
      else if c = CHR 0x0D then [CHR 0x5C, CHR ''r'']
      else if c = CHR 0x22 then [CHR 0x5C, CHR 0x22]
      else if c = CHR 0x5C then [CHR 0x5C, CHR 0x5C]
      else if c < CHR 0x20 then UnicodeEscape c
      else [c])"

definition QuoteJSONString :: "string \<Rightarrow> string" where
  "QuoteJSONString s = CHR 0x22 # concat (map QuoteJSONChar s) @ [CHR 0x22]"

text \<open>\<^verbatim>\<open>SerializeJSONArray\<close> with an empty gap (no indentation), the elements
  serialized by \<open>f\<close>.\<close>

definition SerializeJSONArray :: "('a \<Rightarrow> string) \<Rightarrow> 'a list \<Rightarrow> string" where
  "SerializeJSONArray f xs =
     (if xs = [] then ''[]'' else ''['' @ join (map f xs) '','' @ '']'')"

text \<open>\<^verbatim>\<open>JSON.stringify\<close> at the two types \<^verbatim>\<open>compareData\<close> calls it at:
  \<^verbatim>\<open>string[]\<close> and \<^verbatim>\<open>string[][][]\<close>.\<close>

definition JSON_stringify_numbers :: "string list \<Rightarrow> string" where
  "JSON_stringify_numbers = SerializeJSONArray QuoteJSONString"

definition JSON_stringify_tables :: "string list list list \<Rightarrow> string" where
  "JSON_stringify_tables =
     SerializeJSONArray (SerializeJSONArray (SerializeJSONArray QuoteJSONString))"

text \<open>
  A serializer is self-delimiting when its output can be read back from the front of any
  text that starts with it, and never starts with the bracket that closes an array.
\<close>

definition self_delimiting :: "('a \<Rightarrow> string) \<Rightarrow> bool" where
  "self_delimiting f =
     ((\<forall>x y r s. f x @ r = f y @ s \<longrightarrow> x = y \<and> r = s) \<and>
      (\<forall>x. f x \<noteq> [] \<and> hd (f x) \<noteq> CHR '']''))"

section \<open>Data model\<close>

record AccountConfig =
  login :: string
  password :: string
  elementText :: string
  headless :: "bool option"

text \<open>The interfaces declare \<^verbatim>\<open>tables\<close> and \<^verbatim>\<open>numbers\<close> as always present, but
  \<^verbatim>\<open>compareData\<close> and \<^verbatim>\<open>createDetailedEmailContent\<close> guard both with
  \<^verbatim>\<open>|| []\<close>; \<open>None\<close> is the missing (\<^verbatim>\<open>null\<close> or \<^verbatim>\<open>undefined\<close>) array.\<close>

record TableData =
  tables :: "string list list list option"
  numbers :: "string list option"

text \<open>The field \<^verbatim>\<open>fields\<close> is written \<open>fields'\<close>: the record package keeps the
  name \<open>fields\<close> for itself.\<close>

record ScrapedData =
  mainText :: string
  fields' :: TableData
  url :: string
  timestamp :: string
  elementText :: string

section \<open>Comparing two snapshots\<close>

definition compareData :: "ScrapedData \<Rightarrow> ScrapedData \<Rightarrow> string list" where
  "compareData oldData newData =
     (let changes = [];
          changes = (if mainText oldData \<noteq> mainText newData
                     then changes @ [''Main content has changed''] else changes);
          oldTables = JSON_stringify_tables (or_empty (tables (fields' oldData)));
          newTables = JSON_stringify_tables (or_empty (tables (fields' newData)));
          changes = (if oldTables \<noteq> newTables
                     then changes @ [''Table data has changed''] else changes);
          oldNumbers = JSON_stringify_numbers (or_empty (numbers (fields' oldData)));
          newNumbers = JSON_stringify_numbers (or_empty (numbers (fields' newData)));
          changes = (if oldNumbers \<noteq> newNumbers
                     then changes @ [''Numbers/dates have changed''] else changes)
      in changes)"

section \<open>Extracting a snapshot from the page\<close>

text \<open>
  \<^verbatim>\<open>scrapeData\<close> drives a browser, which stays outside the model: what one attempt
  brings back is either the message of the error it threw or the page it reached. Step 5,
  the extraction from that page, is code of the repository and is modelled in full.
\<close>

record page =
  body_innerText :: string
  document_tables :: "string list list list"
  page_url :: string
  toISOString :: string

text \<open>The character classes \<^verbatim>\<open>\d\<close> and \<^verbatim>\<open>[\.\d]\<close>.\<close>

definition isDigit :: "char \<Rightarrow> bool" where
  "isDigit c = (CHR ''0'' \<le> c \<and> c \<le> CHR ''9'')"

definition isDotOrDigit :: "char \<Rightarrow> bool" where
  "isDotOrDigit c = (c = CHR ''.'' \<or> isDigit c)"

text \<open>
  The optional group \<^verbatim>\<open>(?:\.\d+\.\d+)?\<close> tried at the start of \<open>s\<close>: the text it
  matches and the rest, or \<open>None\<close> when it does not match there.
\<close>

definition match_group :: "string \<Rightarrow> (string \<times> string) option" where
  "match_group s =
     (case s of
        [] \<Rightarrow> None
      | c # t \<Rightarrow>
          if c \<noteq> CHR ''.'' then None
          else let d1 = takeWhile isDigit t; t1 = dropWhile isDigit t
               in if d1 = [] then None
                  else (case t1 of
                          [] \<Rightarrow> None
                        | c' # u \<Rightarrow>
                            if c' \<noteq> CHR ''.'' then None
                            else let d2 = takeWhile isDigit u; u1 = dropWhile isDigit u
                                 in if d2 = [] then None
                                    else Some (c # d1 @ c' # d2, u1)))"

text \<open>
  One match of \<^verbatim>\<open>/\d+[\.\d]*(?:\.\d+\.\d+)?/\<close> anchored at the start of \<open>s\<close>, every
  quantifier greedy. The last element of the pattern is optional, so the greediest try
  succeeds as soon as \<open>s\<close> starts with a digit and the matcher never backtracks.
\<close>

definition match_at :: "string \<Rightarrow> (string \<times> string) option" where
  "match_at s =
     (let d = takeWhile isDigit s; s1 = dropWhile isDigit s
      in if d = [] then None
         else let c = takeWhile isDotOrDigit s1; s2 = dropWhile isDotOrDigit s1
              in (case match_group s2 of
                    Some (g, s3) \<Rightarrow> Some (d @ c @ g, s3)
                  | None \<Rightarrow> Some (d @ c, s2)))"

lemma match_group_shorter: "match_group t = Some (x, r) \<Longrightarrow> length r < length t"
proof -
  assume a: "match_group t = Some (x, r)"
  then obtain t' u where t: "t = CHR ''.'' # t'" and u: "dropWhile isDigit t' = CHR ''.'' # u"
    and r: "r = dropWhile isDigit u"
    by (auto simp: match_group_def Let_def split: list.splits if_splits)
  have "length r \<le> length u" unfolding r by (rule length_dropWhile_le)
  also have "length u < length (dropWhile isDigit t')" unfolding u by simp
  also have "\<dots> \<le> length t'" by (rule length_dropWhile_le)
  finally show ?thesis using t by simp
qed

lemma match_at_shorter: "match_at s = Some (m, rest) \<Longrightarrow> length rest < length s"
proof -
  assume a: "match_at s = Some (m, rest)"
  from a obtain c cs where s: "s = c # cs" and c: "isDigit c"
    by (cases s) (auto simp: match_at_def Let_def split: if_splits)
  let ?s2 = "dropWhile isDotOrDigit (dropWhile isDigit cs)"
  have l: "length ?s2 \<le> length cs"
    by (rule le_trans [OF length_dropWhile_le length_dropWhile_le])
  from a s c have "rest = ?s2 \<or> (\<exists>x. match_group ?s2 = Some (x, rest))"
    by (auto simp: match_at_def Let_def split: option.splits)
  with match_group_shorter [of ?s2 _ rest] l s show ?thesis by auto
qed

text \<open>The flag \<^verbatim>\<open>g\<close>: all matches from left to right, each search starting where the
  match before it ended (a match is never empty).\<close>

function match_all :: "string \<Rightarrow> string list" where
  "match_all s =
     (if s = [] then []
      else (case match_at s of
              Some (m, rest) \<Rightarrow> m # match_all rest
            | None \<Rightarrow> match_all (tl s)))"
  by pat_completeness auto
termination
  by (relation "measure length") (auto simp: match_at_shorter)

declare match_all.simps [simp del]

text \<open>\<^verbatim>\<open>mainText.match(/\d+[\.\d]*(?:\.\d+\.\d+)?/g)\<close>: \<^verbatim>\<open>null\<close> when nothing
  matches.\<close>

definition String_match :: "string \<Rightarrow> string list option" where
  "String_match s = (let ms = match_all s in if ms = [] then None else Some ms)"

text \<open>The tables of the document: every cell trimmed, rows without cells and tables
  without rows left out.\<close>

definition extract_tables :: "string list list list \<Rightarrow> string list list list" where
  "extract_tables tableElements =
     filter (\<lambda>rows. length rows > 0)
       (map (\<lambda>tableRows. filter (\<lambda>cells. length cells > 0) (map (map trim) tableRows))
          tableElements)"

definition scrapedData_of :: "string \<Rightarrow> page \<Rightarrow> ScrapedData" where
  "scrapedData_of this_elementText p =
     (let bodyText = body_innerText p;
          tableData = extract_tables (document_tables p);
          matched = or_empty (String_match bodyText)
      in \<lparr> mainText = trim bodyText,
           fields' = \<lparr> tables = Some tableData, numbers = Some matched \<rparr>,
           url = page_url p,
           timestamp = toISOString p,
           elementText = this_elementText \<rparr>)"

definition retries :: nat where
  "retries = 3"

text \<open>The retry loop of \<^verbatim>\<open>scrapeData\<close>; \<open>browse attempt\<close> is what the browser brings
  back in that attempt.\<close>

function scrapeData_from :: "string \<Rightarrow> (nat \<Rightarrow> string + page) \<Rightarrow> nat \<Rightarrow> string + ScrapedData" where
  "scrapeData_from this_elementText browse attempt =
     (if attempt \<le> retries then
        (case browse attempt of
           Inr p \<Rightarrow> Inr (scrapedData_of this_elementText p)
         | Inl errorMessage \<Rightarrow>
             if attempt = retries
             then Inl (''Failed to scrape data after '' @ String_nat retries @ '' attempts: '' @ errorMessage)
             else scrapeData_from this_elementText browse (attempt + 1))
      else Inl ''Failed to scrape data after all retries'')"
  by pat_completeness auto
termination
  by (relation "measure (\<lambda>(e, b, attempt). retries + 1 - attempt)") auto

declare scrapeData_from.simps [simp del]

definition scrapeData :: "string \<Rightarrow> (nat \<Rightarrow> string + page) \<Rightarrow> string + ScrapedData" where
  "scrapeData this_elementText browse = scrapeData_from this_elementText browse 1"

section \<open>The snapshot store\<close>

text \<open>
  The local-time fields of a \<^verbatim>\<open>Date\<close>, as the getters return them
  (\<open>getMonth\<close> counts from 0).
\<close>

record Date =
  getFullYear :: nat
  getMonth :: nat
  getDate :: nat
  getHours :: nat
  getMinutes :: nat
  getSeconds :: nat

definition saveData_timestamp :: "Date \<Rightarrow> string" where
  "saveData_timestamp now =
     String_nat (getFullYear now) @ ''-'' @
     padStart (String_nat (getMonth now + 1)) 2 (CHR ''0'') @ ''-'' @
     padStart (String_nat (getDate now)) 2 (CHR ''0'') @ ''T'' @
     padStart (String_nat (getHours now)) 2 (CHR ''0'') @ ''-'' @
     padStart (String_nat (getMinutes now)) 2 (CHR ''0'') @ ''-'' @
     padStart (String_nat (getSeconds now)) 2 (CHR ''0'')"

definition saveData_filename :: "Date \<Rightarrow> string" where
  "saveData_filename now = ''szczegoly-wniosku_'' @ saveData_timestamp now @ ''.json''"

text \<open>
  A data directory: file names with what \<^verbatim>\<open>JSON.parse(fs.readFileSync(...))\<close> gives for
  the file, the snapshot written there or the message of the error thrown on a file that
  cannot be read or parsed. \<^verbatim>\<open>fs.writeFileSync\<close> replaces a file of the same name and
  adds a new one otherwise, which is \<^const>\<open>AList.update\<close>. A directory that does not
  exist is \<open>None\<close>; writing into it throws, with a message that begins as below and goes on
  with the path of the file, which the directory of the model does not have.
\<close>

type_synonym directory = "(string \<times> (string + ScrapedData)) list"

definition getLatestDataFile :: "directory option \<Rightarrow> string option" where
  "getLatestDataFile dataDir =
     (case dataDir of
        None \<Rightarrow> None
      | Some entries \<Rightarrow>
          (let files = rev (sort (filter
                 (\<lambda>file. startsWith file ''szczegoly-wniosku_'' \<and> endsWith file ''.json'')
                 (map fst entries)))
           in (case files of [] \<Rightarrow> None | file # _ \<Rightarrow> Some file)))"

definition saveData :: "Date \<Rightarrow> ScrapedData \<Rightarrow> directory option \<Rightarrow> string + (string \<times> directory)" where
  "saveData now data dataDir =
     (let filename = saveData_filename now
      in (case dataDir of
            None \<Rightarrow> Inl ''ENOENT: no such file or directory''
          | Some entries \<Rightarrow> Inr (filename, AList.update filename (Inr data) entries)))"

text \<open>
  The order of two local wall-clock readings, field by field from the year to the second,
  and the readings whose fields lie in the usual ranges with a year of four digits (the form
  \<^verbatim>\<open>YYYY-MM-DDTHH-MM-SS\<close> the comment in \<^verbatim>\<open>saveData\<close> names). This is an order on what the
  getters return, not on the moments of the captures: those are ordered by their time
  values, below.
\<close>

definition reading_before :: "Date \<Rightarrow> Date \<Rightarrow> bool" where
  "reading_before a b =
     (getFullYear a < getFullYear b \<or> (getFullYear a = getFullYear b \<and>
     (getMonth a < getMonth b \<or> (getMonth a = getMonth b \<and>
     (getDate a < getDate b \<or> (getDate a = getDate b \<and>
     (getHours a < getHours b \<or> (getHours a = getHours b \<and>
     (getMinutes a < getMinutes b \<or> (getMinutes a = getMinutes b \<and>
      getSeconds a < getSeconds b))))))))))"

definition valid_Date :: "Date \<Rightarrow> bool" where
  "valid_Date d =
     (1000 \<le> getFullYear d \<and> getFullYear d < 10000 \<and> getMonth d < 12
      \<and> 1 \<le> getDate d \<and> getDate d \<le> 31
      \<and> getHours d < 24 \<and> getMinutes d < 60 \<and> getSeconds d < 60)"

subsection \<open>The clock behind \<^verbatim>\<open>new Date()\<close>\<close>

text \<open>
  \<^verbatim>\<open>new Date()\<close> holds a time value, the milliseconds since 1970-01-01T00:00:00Z, and two
  captures are ordered in time as their time values are. The getters that \<^verbatim>\<open>saveData\<close>
  calls read the fields of the local time \<open>LocalTime(t) = t + LocalTZA(t)\<close>, where
  \<open>LocalTZA\<close> gives the offset of the time zone of the machine at a time value. The functions
  are those of the ECMAScript specification (Time Values and Time Range), with
  \<open>floor(x / y)\<close> as \<open>div\<close> and \<open>modulo\<close> as \<open>mod\<close> on the integers. \<open>YearFromTime(t)\<close> is
  there the largest year \<open>y\<close> with \<open>TimeFromYear(y) \<le> t\<close>; here it is searched among the
  years from \<open>1970 + Day(t) div 366\<close> to \<open>1970 + Day(t) div 365\<close> (the other way round before
  1970), which is the same year (lemma \<open>YearFromTime_largest\<close>).
\<close>

definition msPerDay :: int where
  "msPerDay = 86400000"

definition Day :: "int \<Rightarrow> int" where
  "Day t = t div msPerDay"

definition DaysInYear :: "int \<Rightarrow> int" where
  "DaysInYear y =
     (if y mod 4 \<noteq> 0 then 365 else if y mod 100 \<noteq> 0 then 366
      else if y mod 400 \<noteq> 0 then 365 else 366)"

definition DayFromYear :: "int \<Rightarrow> int" where
  "DayFromYear y =
     365 * (y - 1970) + (y - 1969) div 4 - (y - 1901) div 100 + (y - 1601) div 400"

definition TimeFromYear :: "int \<Rightarrow> int" where
  "TimeFromYear y = msPerDay * DayFromYear y"

definition YearFromTime :: "int \<Rightarrow> int" where
  "YearFromTime t =
     (let d = Day t
      in last (filter (\<lambda>y. DayFromYear y \<le> d)
            [1970 + min (d div 365) (d div 366) .. 1970 + max (d div 365) (d div 366)]))"

definition InLeapYear :: "int \<Rightarrow> int" where
  "InLeapYear t = (if DaysInYear (YearFromTime t) = 365 then 0 else 1)"

definition DayWithinYear :: "int \<Rightarrow> int" where
  "DayWithinYear t = Day t - DayFromYear (YearFromTime t)"

definition MonthFromTime :: "int \<Rightarrow> int" where
  "MonthFromTime t =
     (let d = DayWithinYear t; l = InLeapYear t
      in if d < 31 then 0 else if d < 59 + l then 1 else if d < 90 + l then 2
         else if d < 120 + l then 3 else if d < 151 + l then 4 else if d < 181 + l then 5
         else if d < 212 + l then 6 else if d < 243 + l then 7 else if d < 273 + l then 8
         else if d < 304 + l then 9 else if d < 334 + l then 10 else 11)"

definition DateFromTime :: "int \<Rightarrow> int" where
  "DateFromTime t =
     (let d = DayWithinYear t; l = InLeapYear t; m = MonthFromTime t
      in if m = 0 then d + 1 else if m = 1 then d - 30 else if m = 2 then d - 58 - l
         else if m = 3 then d - 89 - l else if m = 4 then d - 119 - l
         else if m = 5 then d - 150 - l else if m = 6 then d - 180 - l
         else if m = 7 then d - 211 - l else if m = 8 then d - 242 - l
         else if m = 9 then d - 272 - l else if m = 10 then d - 303 - l else d - 333 - l)"

definition HourFromTime :: "int \<Rightarrow> int" where
  "HourFromTime t = (t div 3600000) mod 24"

definition MinFromTime :: "int \<Rightarrow> int" where
  "MinFromTime t = (t div 60000) mod 60"

definition SecFromTime :: "int \<Rightarrow> int" where
  "SecFromTime t = (t div 1000) mod 60"

definition LocalTime :: "(int \<Rightarrow> int) \<Rightarrow> int \<Rightarrow> int" where
  "LocalTime LocalTZA t = t + LocalTZA t"

text \<open>The fields that the six getters of \<^verbatim>\<open>saveData\<close> return for \<^verbatim>\<open>new Date()\<close> at the
  time value \<open>t\<close>.\<close>

definition new_Date :: "(int \<Rightarrow> int) \<Rightarrow> int \<Rightarrow> Date" where
  "new_Date LocalTZA t =
     (let local = LocalTime LocalTZA t
      in \<lparr>getFullYear = nat (YearFromTime local), getMonth = nat (MonthFromTime local),
          getDate = nat (DateFromTime local), getHours = nat (HourFromTime local),
          getMinutes = nat (MinFromTime local), getSeconds = nat (SecFromTime local)\<rparr>)"

text \<open>
  The offset of the time zone Europe/Warsaw at the time values of the year 2025: two
  hours in summer time, from 2025-03-30T01:00:00Z to 2025-10-26T01:00:00Z, and one hour
  before and after.
\<close>

definition Europe_Warsaw_2025 :: "int \<Rightarrow> int" where
  "Europe_Warsaw_2025 t =
     (if 1743296400000 \<le> t \<and> t < 1761440400000 then 7200000 else 3600000)"

section \<open>Notifications and reports\<close>

record notification =
  title :: string
  message :: string

record mailOptions =
  mail_from :: "string option"
  mail_to :: "string option"
  subject :: string
  html :: string

text \<open>The variables \<^verbatim>\<open>mail\<close> and \<^verbatim>\<open>pass\<close> of \<^verbatim>\<open>process.env\<close>.\<close>

record process_env =
  mail :: "string option"
  pass :: "string option"

text \<open>A checker. \<open>mailTransporter\<close> is \<open>None\<close> for \<^verbatim>\<open>null\<close> and holds the
  credentials of the transporter otherwise.\<close>

record PIOChecker =
  accountId :: string
  account :: AccountConfig
  gmailUser :: "string option"
  gmailPass :: "string option"
  mailTransporter :: "(string \<times> string) option"

text \<open>
  What a run changes outside the program: the data directory of each account (found by
  its \<open>accountId\<close>: the directory is \<^verbatim>\<open>data/<accountId>\<close> under the working directory),
  the desktop notifications handed to the notifier and the mails handed to the
  transporter. Both collaborators are fire-and-forget: \<^verbatim>\<open>notifier.notify\<close> returns, and
  \<^verbatim>\<open>sendEmail\<close> catches what \<^verbatim>\<open>sendMail\<close> throws.
\<close>

record world =
  dirs :: "string \<Rightarrow> directory option"
  notifications :: "notification list"
  emails :: "mailOptions list"

text \<open>A string that may be \<^verbatim>\<open>undefined\<close>, used as a condition.\<close>

definition truthy :: "string option \<Rightarrow> bool" where
  "truthy x = (case x of None \<Rightarrow> False | Some s \<Rightarrow> s \<noteq> [])"

text \<open>
  The constructor: it creates the data directory first and validates the configuration
  after that, so the directory is there even when the constructor throws. The result is
  the world after the call with the message of the error thrown or the checker.
\<close>

definition new_PIOChecker :: "process_env \<Rightarrow> AccountConfig \<Rightarrow> world \<Rightarrow> world \<times> (string + PIOChecker)" where
  "new_PIOChecker env accountConfig w =
     (let this_accountId = login accountConfig;
          w1 = (if dirs w this_accountId = None
                then w\<lparr>dirs := (dirs w)(this_accountId := Some [])\<rparr> else w)
      in if login accountConfig = [] \<or> password accountConfig = []
            \<or> AccountConfig.elementText accountConfig = []
         then (w1, Inl (''Missing required configuration for account '' @ this_accountId
                         @ '': login, password, or elementText''))
         else (w1, Inr \<lparr> accountId = this_accountId,
                          account = accountConfig,
                          gmailUser = mail env,
                          gmailPass = pass env,
                          mailTransporter =
                            (case (mail env, pass env) of
                               (Some u, Some p) \<Rightarrow>
                                 if truthy (mail env) \<and> truthy (pass env) then Some (u, p) else None
                             | _ \<Rightarrow> None) \<rparr>))"

definition sendNotification :: "PIOChecker \<Rightarrow> string \<Rightarrow> string \<Rightarrow> world \<Rightarrow> world" where
  "sendNotification this t m w =
     w\<lparr>notifications := notifications w @ [\<lparr> title = t @ '' - '' @ accountId this, message = m \<rparr>]\<rparr>"

definition formatTablesForEmail :: "string list list list option \<Rightarrow> string" where
  \<open>formatTablesForEmail ts =
     (case ts of
        None \<Rightarrow> ''<p>No table data available</p>''
      | Some tbls \<Rightarrow>
          if length tbls = 0 then ''<p>No table data available</p>''
          else concat (map (\<lambda>(index, tbl).
             ''<h5>Table '' @ String_nat (index + 1) @ '':</h5>'' @
             ''<table border="1" style="border-collapse: collapse; margin-bottom: 10px;">'' @
             concat (map (\<lambda>(rowIndex, row).
               ''<tr>'' @
               concat (map (\<lambda>cell.
                 (let tag = (if rowIndex = 0 then ''th'' else ''td'')
                  in ''<'' @ tag @ '' style="padding: 5px; border: 1px solid #ccc;">'' @ cell
                     @ ''</'' @ tag @ ''>'')) row) @
               ''</tr>'') (enumerate 0 tbl)) @
             ''</table>'') (enumerate 0 tbls)))\<close>

text \<open>The first and the last template literal of \<^verbatim>\<open>createDetailedEmailContent\<close>;
  \<open>now\<close> is \<^verbatim>\<open>new Date().toLocaleString()\<close>.\<close>

definition report_head :: "PIOChecker \<Rightarrow> string \<Rightarrow> string" where
  "report_head this now =
     ''\<newline>            <h2>PIO Application Status Update</h2>\<newline>            <p><strong>Account:</strong> '' @
     accountId this @
     ''</p>\<newline>            <p><strong>Time:</strong> '' @
     now @
     ''</p>\<newline>            <p><strong>Application Number:</strong> '' @
     AccountConfig.elementText (account this) @
     ''</p>\<newline>            <p><strong>Changes Detected:</strong></p>\<newline>            <ul>\<newline>        ''"

definition report_foot :: "PIOChecker \<Rightarrow> ScrapedData \<Rightarrow> string" where
  \<open>report_foot this currentData =
     ''\<newline>            <hr>\<newline>            <p><strong>Application URL:</strong> <a href="'' @
     url currentData @
     ''">'' @
     url currentData @
     ''</a></p>\<newline>            <p><em>This is an automated notification from PIO Checker for account '' @
     accountId this @
     ''.</em></p>\<newline>        ''\<close>

definition createDetailedEmailContent :: "PIOChecker \<Rightarrow> string \<Rightarrow> string list \<Rightarrow> ScrapedData \<Rightarrow> ScrapedData \<Rightarrow> string" where
  "createDetailedEmailContent this now changes previousData currentData =
     (let h = report_head this now;
          h = h @ concat (map (\<lambda>change. ''<li>'' @ change @ ''</li>'') changes);
          h = h @ ''</ul>'';
          h = (if ''Table data has changed'' \<in> set changes
               then h @ ''<h3>Table Changes:</h3>''
                      @ ''<h4>Previous Data:</h4>''
                      @ formatTablesForEmail (Some (or_empty (tables (fields' previousData))))
                      @ ''<h4>Current Data:</h4>''
                      @ formatTablesForEmail (Some (or_empty (tables (fields' currentData))))
               else h);
          h = (if ''Numbers/dates have changed'' \<in> set changes
               then h @ ''<h3>Number/Date Changes:</h3>''
                      @ (''<p><strong>Previous:</strong> ''
                         @ join (or_empty (numbers (fields' previousData))) '', '' @ ''</p>'')
                      @ (''<p><strong>Current:</strong> ''
                         @ join (or_empty (numbers (fields' currentData))) '', '' @ ''</p>'')
               else h);
          h = h @ report_foot this currentData
      in h)"

definition sendEmail :: "PIOChecker \<Rightarrow> string \<Rightarrow> string \<Rightarrow> string list option \<Rightarrow> ScrapedData option \<Rightarrow> ScrapedData option \<Rightarrow> string \<Rightarrow> world \<Rightarrow> world" where
  "sendEmail this subj msg changes previousData currentData now w =
     (if mailTransporter this = None then w
      else let emailContent =
                 (case (changes, previousData, currentData) of
                    (Some cs, Some prev, Some cur) \<Rightarrow>
                      if length cs > 0 then createDetailedEmailContent this now cs prev cur
                      else msg
                  | _ \<Rightarrow> msg)
           in w\<lparr>emails := emails w @
                  [\<lparr> mail_from = gmailUser this, mail_to = gmailUser this,
                     subject = subj @ '' - Account: '' @ accountId this,
                     html = emailContent \<rparr>]\<rparr>)"

section \<open>One run for one account\<close>

text \<open>What the outside brings to one run: the browser's attempts, the clock read by
  \<^verbatim>\<open>saveData\<close> and the clock as \<^verbatim>\<open>toLocaleString()\<close> prints it.\<close>

record run_env =
  browse :: "nat \<Rightarrow> string + page"
  clock :: Date
  toLocaleString :: string

text \<open>\<^verbatim>\<open>JSON.parse(fs.readFileSync(latestFile, 'utf8'))\<close>.\<close>

definition readFile :: "directory option \<Rightarrow> string \<Rightarrow> string + ScrapedData" where
  "readFile dataDir file =
     (case dataDir of
        None \<Rightarrow> Inl ''ENOENT: no such file or directory''
      | Some entries \<Rightarrow>
          (case map_of entries file of
             None \<Rightarrow> Inl ''ENOENT: no such file or directory''
           | Some content \<Rightarrow> content))"

text \<open>
  The body of the \<^verbatim>\<open>try\<close> block: \<open>Inl\<close> with the message of the error thrown, or the
  world after the block. Reading the previous snapshot, scraping and saving are the steps
  that can throw, and each throws before it changes anything, so the handler starts from
  the world the run started in.
\<close>

definition run_try :: "PIOChecker \<Rightarrow> run_env \<Rightarrow> world \<Rightarrow> string + world" where
  "run_try this env w =
     (let dataDir = dirs w (accountId this);
          latestFile = getLatestDataFile dataDir
      in (case (case latestFile of
                  None \<Rightarrow> Inr None
                | Some file \<Rightarrow> map_sum id Some (readFile dataDir file)) of
            Inl e \<Rightarrow> Inl e
          | Inr previousData \<Rightarrow>
              (case scrapeData (AccountConfig.elementText (account this)) (browse env) of
                 Inl e \<Rightarrow> Inl e
               | Inr currentData \<Rightarrow>
                   (case saveData (clock env) currentData dataDir of
                      Inl e \<Rightarrow> Inl e
                    | Inr (filepath, entries) \<Rightarrow>
                        (let w1 = w\<lparr>dirs := (dirs w)(accountId this := Some entries)\<rparr>
                         in (case previousData of
                               None \<Rightarrow>
                                 Inr (sendNotification this ''PIO Checker - First Run''
                                   ''Baseline data has been saved. Future runs will detect changes.'' w1)
                             | Some prev \<Rightarrow>
                                 (let changes = compareData prev currentData
                                  in if length changes = 0
                                     then Inr (sendNotification this ''PIO Checker - No Changes''
                                            ''Your application status remains unchanged.'' w1)
                                     else Inr (sendEmail this ''PIO Checker - Changes Detected!''
                                            ''Changes have been detected in your application status.''
                                            (Some changes) (Some prev) (Some currentData)
                                            (toLocaleString env)
                                            (sendNotification this ''PIO Checker - Changes Detected!''
                                               (''Changes found: '' @ join changes '', '') w1)))))))))"

definition run :: "PIOChecker \<Rightarrow> run_env \<Rightarrow> world \<Rightarrow> world" where
  "run this env w =
     (case run_try this env w of
        Inr w' \<Rightarrow> w'
      | Inl errorMessage \<Rightarrow>
          sendEmail this ''PIO Checker - Error Occurred''
            (''<h2>PIO Checker - Error Report</h2>\<newline>                 <p><strong>Account:</strong> '' @
             accountId this @
             ''</p>\<newline>                 <p><strong>Time:</strong> '' @
             toLocaleString env @
             ''</p>\<newline>                 <p><strong>Error:</strong> '' @
             errorMessage @
             ''</p>\<newline>                 <p>The PIO checker encountered an error while trying to check your application status.</p>\<newline>                 <p>Please check the application manually or review the system logs.</p>\<newline>                 <p><em>This is an automated notification from PIO Checker.</em></p>'')
            None None None (toLocaleString env)
            (sendNotification this ''PIO Checker - Error''
               (''An error occurred: '' @ errorMessage) w))"

section \<open>All accounts\<close>

record result =
  accountId :: string
  status :: string
  error :: "string option"

text \<open>
  The loop of \<^verbatim>\<open>runAll\<close> over the accounts, each with what the outside brings to its
  run. \<^const>\<open>run\<close> returns without throwing, so the handler of the loop is reached from
  the constructor only. The pause of three seconds between accounts changes nothing the
  model can see.
\<close>

fun runAll_loop :: "process_env \<Rightarrow> (AccountConfig \<times> run_env) list \<Rightarrow> result list \<Rightarrow> world \<Rightarrow> result list \<times> world" where
  "runAll_loop penv [] results w = (results, w)"
| "runAll_loop penv ((accountConfig, env) # rest) results w =
     (case new_PIOChecker penv accountConfig w of
        (w1, Inr checker) \<Rightarrow>
          runAll_loop penv rest
            (results @ [\<lparr> accountId = login accountConfig, status = ''success'', error = None \<rparr>])
            (run checker env w1)
      | (w1, Inl errorMessage) \<Rightarrow>
          runAll_loop penv rest
            (results @ [\<lparr> accountId = login accountConfig, status = ''error'',
                          error = Some errorMessage \<rparr>])
            w1)"

definition runAll :: "process_env \<Rightarrow> (AccountConfig \<times> run_env) list \<Rightarrow> world \<Rightarrow> result list \<times> world" where
  "runAll penv accounts w = runAll_loop penv accounts [] w"

section \<open>Concrete inputs\<close>

text \<open>A snapshot with the given text, tables, numbers and application number; the
  concrete instances below are built from it.\<close>

definition snapshot :: "string \<Rightarrow> string list list list option \<Rightarrow> string list option \<Rightarrow> string \<Rightarrow> ScrapedData" where
  "snapshot t tb ns e = \<lparr> mainText = t, fields' = \<lparr> tables = tb, numbers = ns \<rparr>,
      url = ''https://pio-przybysz.duw.pl/szczegoly-wniosku/1'', timestamp = ''2025-01-02T03:04:05.000Z'', elementText = e \<rparr>"

text \<open>A page with the given text and no table.\<close>

definition page_with :: "string \<Rightarrow> page" where
  "page_with t = \<lparr> body_innerText = t, document_tables = [],
      page_url = ''https://pio-przybysz.duw.pl/szczegoly-wniosku/1'',
      toISOString = ''2025-01-02T03:04:05.000Z'' \<rparr>"

text \<open>An empty world, an account and its checker without mail, a clock reading in the
  given year at the given second.\<close>

definition empty_world :: world where
  "empty_world = \<lparr> dirs = (\<lambda>accountId. None), notifications = [], emails = [] \<rparr>"

definition account_of :: "string \<Rightarrow> AccountConfig" where
  "account_of l = \<lparr> login = l, password = ''secret'', AccountConfig.elementText = ''223199'',
      headless = Some True \<rparr>"

definition no_mail :: process_env where
  "no_mail = \<lparr> mail = None, pass = None \<rparr>"

definition checker_of :: "string \<Rightarrow> PIOChecker" where
  "checker_of l = \<lparr> PIOChecker.accountId = l, account = account_of l, gmailUser = None,
      gmailPass = None, mailTransporter = None \<rparr>"

definition date_at :: "nat \<Rightarrow> nat \<Rightarrow> Date" where
  "date_at y s = \<lparr> getFullYear = y, getMonth = 0, getDate = 2, getHours = 3, getMinutes = 4,
      getSeconds = s \<rparr>"

text \<open>A run whose browser reaches the page with the given text in every attempt, and a
  run whose browser fails in every attempt.\<close>

definition reaching :: "string \<Rightarrow> Date \<Rightarrow> run_env" where
  "reaching t d = \<lparr> browse = (\<lambda>attempt. Inr (page_with t)), clock = d,
      toLocaleString = ''1/2/2025, 3:04:05 AM'' \<rparr>"

definition failing :: "Date \<Rightarrow> run_env" where
  "failing d = \<lparr> browse = (\<lambda>attempt. Inl ''Navigation timeout of 60000 ms exceeded''),
      clock = d, toLocaleString = ''1/2/2025, 3:04:05 AM'' \<rparr>"

text \<open>A data directory holding one earlier snapshot of a page with the given text, and the
  world in which every account has the given data directory.\<close>

definition previous_file :: "string \<Rightarrow> directory" where
  "previous_file t = [(saveData_filename (date_at 2025 1), Inr (scrapedData_of ''223199'' (page_with t)))]"

definition world_with :: "directory option \<Rightarrow> world" where
  "world_with d = \<lparr> dirs = (\<lambda>accountId. d), notifications = [], emails = [] \<rparr>"

section \<open>What \<^verbatim>\<open>runAll\<close> reports for an account\<close>

text \<open>The entry an account gets in the list of results: it depends on the configuration
  alone.\<close>

definition result_of :: "AccountConfig \<Rightarrow> result" where
  "result_of accountConfig =
     (if login accountConfig = [] \<or> password accountConfig = []
         \<or> AccountConfig.elementText accountConfig = []
      then \<lparr> accountId = login accountConfig, status = ''error'',
             error = Some (''Missing required configuration for account '' @ login accountConfig
                            @ '': login, password, or elementText'') \<rparr>
      else \<lparr> accountId = login accountConfig, status = ''success'', error = None \<rparr>)"

section \<open>\<^verbatim>\<open>JSON.stringify\<close> loses nothing\<close>

text \<open>
  \<^verbatim>\<open>compareData\<close> compares serializations, not arrays. The serialization of an array
  of strings determines the array, its order included, so comparing serializations is
  comparing the arrays element by element.
\<close>

lemma of_char_hexdigit: "d < 16 \<Longrightarrow> (of_char (hexdigit d) :: nat) = (if d < 10 then 48 + d else 87 + d)"
  by (simp add: hexdigit_def)

lemma hexdigit_inj: "a < 16 \<Longrightarrow> b < 16 \<Longrightarrow> hexdigit a = hexdigit b \<Longrightarrow> a = b"
proof -
  assume a: "a < 16" and b: "b < 16" and e: "hexdigit a = hexdigit b"
  from e have "(of_char (hexdigit a) :: nat) = of_char (hexdigit b)" by simp
  with a b show ?thesis by (simp add: of_char_hexdigit split: if_splits)
qed

lemma UnicodeEscape_inj:
  assumes "UnicodeEscape x = UnicodeEscape y" and "x < CHR 0x20" and "y < CHR 0x20"
  shows "x = y"
proof -
  let ?n = "of_char x :: nat" and ?m = "of_char y :: nat"
  have n: "?n < 32" and m: "?m < 32" using assms(2,3) by (simp_all add: less_char_def)
  from assms(1) have h: "hexdigit (?n div 16 mod 16) = hexdigit (?m div 16 mod 16)"
    and l: "hexdigit (?n mod 16) = hexdigit (?m mod 16)"
    by (simp_all add: UnicodeEscape_def Let_def)
  from h have "?n div 16 mod 16 = ?m div 16 mod 16" by (intro hexdigit_inj) simp_all
  moreover from l have "?n mod 16 = ?m mod 16" by (intro hexdigit_inj) simp_all
  moreover have "?n div 16 mod 16 = ?n div 16" "?m div 16 mod 16 = ?m div 16"
    using n m by simp_all
  ultimately have "?n div 16 = ?m div 16" "?n mod 16 = ?m mod 16" by simp_all
  then have "?n = ?m" by (metis div_mult_mod_eq)
  then show ?thesis by simp
qed

lemma QuoteJSONChar_nonempty: "QuoteJSONChar c \<noteq> []"
  by (simp add: QuoteJSONChar_def UnicodeEscape_def Let_def)

lemma QuoteJSONChar_hd: "hd (QuoteJSONChar c) \<noteq> CHR 0x22"
  by (simp add: QuoteJSONChar_def UnicodeEscape_def Let_def)

lemma QuoteJSONChar_cases:
  "(QuoteJSONChar c = [c] \<and> c \<noteq> CHR 0x5C \<and> c \<noteq> CHR 0x22) \<or>
   (\<exists>e. QuoteJSONChar c = [CHR 0x5C, e] \<and> e \<noteq> CHR ''u'') \<or>
   (QuoteJSONChar c = UnicodeEscape c \<and> c < CHR 0x20)"
  by (simp add: QuoteJSONChar_def)

lemma QuoteJSONChar_short_inj:
  "QuoteJSONChar x = [CHR 0x5C, e] \<Longrightarrow> QuoteJSONChar y = [CHR 0x5C, e] \<Longrightarrow> x = y"
  by (auto simp: QuoteJSONChar_def UnicodeEscape_def Let_def split: if_splits)

lemma UnicodeEscape_shape: "\<exists>a b c d. UnicodeEscape x = [CHR 0x5C, CHR ''u'', a, b, c, d]"
  by (simp add: UnicodeEscape_def Let_def)

lemma QuoteJSONChar_prefix_free:
  assumes eq: "QuoteJSONChar x @ r = QuoteJSONChar y @ s"
  shows "x = y \<and> r = s"
proof -
  consider
      (plain) "QuoteJSONChar x = [x]" "x \<noteq> CHR 0x5C"
    | (short) e where "QuoteJSONChar x = [CHR 0x5C, e]" "e \<noteq> CHR ''u''"
    | (long) "QuoteJSONChar x = UnicodeEscape x" "x < CHR 0x20"
    using QuoteJSONChar_cases [of x] by blast
  then show ?thesis
  proof cases
    case plain
    consider
        (plain') "QuoteJSONChar y = [y]" "y \<noteq> CHR 0x5C"
      | (short') e' where "QuoteJSONChar y = [CHR 0x5C, e']"
      | (long') "QuoteJSONChar y = UnicodeEscape y"
      using QuoteJSONChar_cases [of y] by blast
    then show ?thesis
    proof cases
      case plain'
      with plain eq show ?thesis by simp
    next
      case short'
      with plain eq show ?thesis by simp
    next
      case long'
      with plain eq UnicodeEscape_shape [of y] show ?thesis by auto
    qed
  next
    case (short e)
    consider
        (plain') "QuoteJSONChar y = [y]" "y \<noteq> CHR 0x5C"
      | (short') e' where "QuoteJSONChar y = [CHR 0x5C, e']"
      | (long') "QuoteJSONChar y = UnicodeEscape y"
      using QuoteJSONChar_cases [of y] by blast
    then show ?thesis
    proof cases
      case plain'
      with short eq show ?thesis by simp
    next
      case short'
      with short eq have "e' = e" and "r = s" by simp_all
      with short short' show ?thesis by (simp add: QuoteJSONChar_short_inj)
    next
      case long'
      with short eq UnicodeEscape_shape [of y] show ?thesis by auto
    qed
  next
    case long
    consider
        (plain') "QuoteJSONChar y = [y]" "y \<noteq> CHR 0x5C"
      | (short') e' where "QuoteJSONChar y = [CHR 0x5C, e']" "e' \<noteq> CHR ''u''"
      | (long') "QuoteJSONChar y = UnicodeEscape y" "y < CHR 0x20"
      using QuoteJSONChar_cases [of y] by blast
    then show ?thesis
    proof cases
      case plain'
      with long eq UnicodeEscape_shape [of x] show ?thesis by auto
    next
      case short'
      with long eq UnicodeEscape_shape [of x] show ?thesis by auto
    next
      case long'
      from UnicodeEscape_shape [of x] UnicodeEscape_shape [of y]
      have "length (UnicodeEscape x) = length (UnicodeEscape y)" by auto
      with long long' eq have "UnicodeEscape x = UnicodeEscape y" and "r = s" by simp_all
      with long long' show ?thesis by (simp add: UnicodeEscape_inj)
    qed
  qed
qed

lemma QuoteJSONString_body:
  "concat (map QuoteJSONChar xs) @ CHR 0x22 # r = concat (map QuoteJSONChar ys) @ CHR 0x22 # s
   \<Longrightarrow> xs = ys \<and> r = s"
proof (induction xs arbitrary: ys)
  case Nil
  show ?case
  proof (cases ys)
    case Nil
    with Nil.prems show ?thesis by simp
  next
    case (Cons y ys')
    with Nil.prems have "hd (QuoteJSONChar y @ concat (map QuoteJSONChar ys') @ CHR 0x22 # s) = CHR 0x22"
      by (metis append_Nil append_assoc concat.simps(1,2) list.map(1,2) list.sel(1))
    then show ?thesis using QuoteJSONChar_nonempty [of y] QuoteJSONChar_hd [of y] by simp
  qed
next
  case (Cons x xs)
  show ?case
  proof (cases ys)
    case Nil
    with Cons.prems have "hd (QuoteJSONChar x @ concat (map QuoteJSONChar xs) @ CHR 0x22 # r) = CHR 0x22"
      by simp
    then show ?thesis using QuoteJSONChar_nonempty [of x] QuoteJSONChar_hd [of x] by simp
  next
    case (Cons y ys')
    with Cons.prems have
      "QuoteJSONChar x @ (concat (map QuoteJSONChar xs) @ CHR 0x22 # r) =
       QuoteJSONChar y @ (concat (map QuoteJSONChar ys') @ CHR 0x22 # s)"
      by simp
    then have "x = y" and "concat (map QuoteJSONChar xs) @ CHR 0x22 # r =
       concat (map QuoteJSONChar ys') @ CHR 0x22 # s"
      using QuoteJSONChar_prefix_free by blast+
    with Cons.IH [of ys'] Cons show ?thesis by simp
  qed
qed

lemma QuoteJSONString_prefix_free:
  "QuoteJSONString x @ r = QuoteJSONString y @ s \<Longrightarrow> x = y \<and> r = s"
  using QuoteJSONString_body [of x r y s] by (simp add: QuoteJSONString_def)


lemma self_delimitingD:
  "self_delimiting f \<Longrightarrow> f x @ r = f y @ s \<Longrightarrow> x = y \<and> r = s"
  unfolding self_delimiting_def by blast

lemma self_delimiting_hd:
  assumes "self_delimiting f"
  shows "f x @ r \<noteq> CHR '']'' # s"
proof
  assume "f x @ r = CHR '']'' # s"
  then have "hd (f x @ r) = CHR '']''" by simp
  moreover from assms have "f x \<noteq> []" "hd (f x) \<noteq> CHR '']''"
    unfolding self_delimiting_def by simp_all
  ultimately show False by simp
qed

lemma self_delimiting_QuoteJSONString: "self_delimiting QuoteJSONString"
proof -
  have "QuoteJSONString x \<noteq> [] \<and> hd (QuoteJSONString x) \<noteq> CHR '']''" for x
    by (simp add: QuoteJSONString_def)
  with QuoteJSONString_prefix_free show ?thesis
    unfolding self_delimiting_def by blast
qed

lemma join_map_Cons:
  "join (map f (x # xs)) sep = f x @ (if xs = [] then [] else sep @ join (map f xs) sep)"
  by (cases xs) simp_all

lemma join_body:
  assumes f: "self_delimiting f"
  shows "xs \<noteq> [] \<Longrightarrow> ys \<noteq> [] \<Longrightarrow>
         join (map f xs) '','' @ CHR '']'' # r = join (map f ys) '','' @ CHR '']'' # s \<Longrightarrow>
         xs = ys \<and> r = s"
proof (induction xs arbitrary: ys)
  case Nil
  then show ?case by simp
next
  case (Cons x xs)
  from Cons.prems(2) obtain y ys' where ys: "ys = y # ys'" by (cases ys) auto
  define R where "R = (if xs = [] then [] else '','' @ join (map f xs) '','') @ CHR '']'' # r"
  define S where "S = (if ys' = [] then [] else '','' @ join (map f ys') '','') @ CHR '']'' # s"
  have "join (map f (x # xs)) '','' @ CHR '']'' # r = f x @ R"
    unfolding R_def join_map_Cons by simp
  moreover have "join (map f (y # ys')) '','' @ CHR '']'' # s = f y @ S"
    unfolding S_def join_map_Cons by simp
  ultimately have "f x @ R = f y @ S" using Cons.prems(3) ys by simp
  from self_delimitingD [OF f this] have xy: "x = y" and RS: "R = S" by simp_all
  show ?case
  proof (cases "xs = []")
    case True
    have "ys' = []"
    proof (rule ccontr)
      assume "ys' \<noteq> []"
      with True RS show False by (simp add: R_def S_def)
    qed
    with True RS xy ys show ?thesis by (simp add: R_def S_def)
  next
    case False
    have ys': "ys' \<noteq> []"
    proof
      assume "ys' = []"
      with False RS show False by (simp add: R_def S_def)
    qed
    with False RS have "join (map f xs) '','' @ CHR '']'' # r = join (map f ys') '','' @ CHR '']'' # s"
      by (simp add: R_def S_def)
    from Cons.IH [OF False ys' this] xy ys show ?thesis by simp
  qed
qed

lemma SerializeJSONArray_prefix_free:
  assumes f: "self_delimiting f"
    and eq: "SerializeJSONArray f xs @ r = SerializeJSONArray f ys @ s"
  shows "xs = ys \<and> r = s"
proof (cases "xs = []")
  case True
  show ?thesis
  proof (cases "ys = []")
    case True
    with \<open>xs = []\<close> eq show ?thesis by (simp add: SerializeJSONArray_def)
  next
    case False
    then obtain y ys' where "ys = y # ys'" by (cases ys) auto
    with True eq have "f y @ ((if ys' = [] then [] else '','' @ join (map f ys') '','') @ CHR '']'' # s) = CHR '']'' # r"
      by (simp add: SerializeJSONArray_def join_map_Cons del: list.map)
    with self_delimiting_hd [OF f] show ?thesis by blast
  qed
next
  case False
  show ?thesis
  proof (cases "ys = []")
    case True
    from False obtain x xs' where "xs = x # xs'" by (cases xs) auto
    with True eq have "f x @ ((if xs' = [] then [] else '','' @ join (map f xs') '','') @ CHR '']'' # r) = CHR '']'' # s"
      by (simp add: SerializeJSONArray_def join_map_Cons del: list.map)
    with self_delimiting_hd [OF f] show ?thesis by blast
  next
    case ys: False
    with False eq have "join (map f xs) '','' @ CHR '']'' # r = join (map f ys) '','' @ CHR '']'' # s"
      by (simp add: SerializeJSONArray_def)
    with join_body [OF f False ys] show ?thesis by blast
  qed
qed

lemma self_delimiting_SerializeJSONArray:
  assumes f: "self_delimiting f"
  shows "self_delimiting (SerializeJSONArray f)"
proof -
  have "SerializeJSONArray f xs \<noteq> [] \<and> hd (SerializeJSONArray f xs) \<noteq> CHR '']''" for xs
    by (simp add: SerializeJSONArray_def)
  with SerializeJSONArray_prefix_free [OF f] show ?thesis
    unfolding self_delimiting_def by blast
qed

lemma self_delimiting_inj: "self_delimiting f \<Longrightarrow> inj f"
proof (rule injI)
  fix x y
  assume "self_delimiting f" and "f x = f y"
  then have "f x @ [] = f y @ []" by simp
  with \<open>self_delimiting f\<close> show "x = y" by (blast dest: self_delimitingD)
qed

lemma JSON_stringify_numbers_eq_iff:
  "JSON_stringify_numbers xs = JSON_stringify_numbers ys \<longleftrightarrow> xs = ys"
  using self_delimiting_inj [OF self_delimiting_SerializeJSONArray [OF self_delimiting_QuoteJSONString]]
  by (auto simp: JSON_stringify_numbers_def dest: injD)

lemma JSON_stringify_tables_eq_iff:
  "JSON_stringify_tables xs = JSON_stringify_tables ys \<longleftrightarrow> xs = ys"
  using self_delimiting_inj [OF self_delimiting_SerializeJSONArray
      [OF self_delimiting_SerializeJSONArray [OF self_delimiting_SerializeJSONArray
      [OF self_delimiting_QuoteJSONString]]]]
  by (auto simp: JSON_stringify_tables_def dest: injD)

section \<open>Properties of the comparison\<close>

text \<open>With the serialization read back, \<^const>\<open>compareData\<close> compares the three field
  groups themselves.\<close>

lemma compareData_unfold:
  "compareData a b =
     (if mainText a \<noteq> mainText b then [''Main content has changed''] else []) @
     (if or_empty (tables (fields' a)) \<noteq> or_empty (tables (fields' b))
      then [''Table data has changed''] else []) @
     (if or_empty (numbers (fields' a)) \<noteq> or_empty (numbers (fields' b))
      then [''Numbers/dates have changed''] else [])"
  by (simp add: compareData_def Let_def JSON_stringify_tables_eq_iff JSON_stringify_numbers_eq_iff)

text \<open>
  Claim C8. Comparing a snapshot with itself reports no change: the list of changes is
  empty, so the run takes the branch \<^verbatim>\<open>changes.length === 0\<close>.
\<close>

theorem compareData_self: "compareData s s = []"
  by (simp add: compareData_def)

text \<open>
  Claim C3. \<^const>\<open>compareData\<close> makes three checks, each on its own and all of them every
  time, and lists what differs in the order content, tables, numbers: the text by string
  inequality, the tables and the numbers by inequality of their serializations. Two
  serializations differ exactly when the arrays differ as sequences, so a reordering of
  rows is a change. No category is listed twice, and the list is empty exactly when none
  of the three groups differs.
\<close>

theorem compareData_categories:
  "compareData a b =
     (if mainText a \<noteq> mainText b then [''Main content has changed''] else []) @
     (if JSON_stringify_tables (or_empty (tables (fields' a)))
           \<noteq> JSON_stringify_tables (or_empty (tables (fields' b)))
      then [''Table data has changed''] else []) @
     (if JSON_stringify_numbers (or_empty (numbers (fields' a)))
           \<noteq> JSON_stringify_numbers (or_empty (numbers (fields' b)))
      then [''Numbers/dates have changed''] else [])
   \<and> ((JSON_stringify_tables (or_empty (tables (fields' a)))
           \<noteq> JSON_stringify_tables (or_empty (tables (fields' b))))
        = (or_empty (tables (fields' a)) \<noteq> or_empty (tables (fields' b))))
   \<and> ((JSON_stringify_numbers (or_empty (numbers (fields' a)))
           \<noteq> JSON_stringify_numbers (or_empty (numbers (fields' b))))
        = (or_empty (numbers (fields' a)) \<noteq> or_empty (numbers (fields' b))))
   \<and> distinct (compareData a b)
   \<and> ((length (compareData a b) = 0) =
        (mainText a = mainText b
         \<and> or_empty (tables (fields' a)) = or_empty (tables (fields' b))
         \<and> or_empty (numbers (fields' a)) = or_empty (numbers (fields' b))))"
  by (simp add: compareData_unfold JSON_stringify_tables_eq_iff JSON_stringify_numbers_eq_iff)

theorem compareData_categories_witness:
  "compareData (snapshot ''t'' (Some [[[''1'', ''2''], [''3'']]]) (Some [''10'']) ''1'')
               (snapshot ''t'' (Some [[[''3''], [''1'', ''2'']]]) (Some [''11'']) ''1'')
     = [''Table data has changed'', ''Numbers/dates have changed'']"
  using compareData_categories [of "snapshot ''t'' (Some [[[''1'', ''2''], [''3'']]]) (Some [''10'']) ''1''"
                                   "snapshot ''t'' (Some [[[''3''], [''1'', ''2'']]]) (Some [''11'']) ''1''"]
  by (simp add: snapshot_def or_empty_def)

text \<open>
  Claim C10. A missing \<^verbatim>\<open>tables\<close> (or \<^verbatim>\<open>numbers\<close>) field is compared as the empty
  array: against a snapshot whose field is the empty array no table change (no number
  change) is reported, whichever side the missing field is on and whatever the other
  fields hold. \<^const>\<open>compareData\<close> is a total function: it has a result on these
  snapshots as on all others.
\<close>

theorem compareData_missing_as_empty:
  "''Table data has changed'' \<notin> set (compareData
       (a\<lparr>fields' := \<lparr> tables = None, numbers = na \<rparr>\<rparr>)
       (b\<lparr>fields' := \<lparr> tables = Some [], numbers = nb \<rparr>\<rparr>))
   \<and> ''Table data has changed'' \<notin> set (compareData
       (a\<lparr>fields' := \<lparr> tables = Some [], numbers = na \<rparr>\<rparr>)
       (b\<lparr>fields' := \<lparr> tables = None, numbers = nb \<rparr>\<rparr>))
   \<and> ''Numbers/dates have changed'' \<notin> set (compareData
       (a\<lparr>fields' := \<lparr> tables = ta, numbers = None \<rparr>\<rparr>)
       (b\<lparr>fields' := \<lparr> tables = tb, numbers = Some [] \<rparr>\<rparr>))
   \<and> ''Numbers/dates have changed'' \<notin> set (compareData
       (a\<lparr>fields' := \<lparr> tables = ta, numbers = Some [] \<rparr>\<rparr>)
       (b\<lparr>fields' := \<lparr> tables = tb, numbers = None \<rparr>\<rparr>))
   \<and> compareData (a\<lparr>fields' := \<lparr> tables = None, numbers = None \<rparr>\<rparr>)
                   (a\<lparr>fields' := \<lparr> tables = Some [], numbers = Some [] \<rparr>\<rparr>) = []"
  by (simp add: compareData_unfold or_empty_def)

theorem compareData_missing_as_empty_witness:
  "compareData (snapshot ''t'' None None ''1'') (snapshot ''t'' (Some []) (Some []) ''1'') = []"
  using compareData_missing_as_empty [where a = "snapshot ''t'' None None ''1''"]
  by (simp add: snapshot_def)

text \<open>
  Claim C2, as the claim states it, fails: \<^const>\<open>compareData\<close> never looks at the
  application number of a snapshot. On two snapshots of different applications it returns
  a list of changes like on any other pair, here the empty one.
\<close>

theorem compareData_cross_record_counterexample:
  "elementText (snapshot ''t'' (Some []) (Some [''10'']) ''223199'')
     \<noteq> elementText (snapshot ''t'' (Some []) (Some [''10'']) ''777000'')
   \<and> compareData (snapshot ''t'' (Some []) (Some [''10'']) ''223199'')
                   (snapshot ''t'' (Some []) (Some [''10'']) ''777000'') = []"
  by (simp add: snapshot_def compareData_unfold)

text \<open>
  Claim C2, amended. The result of \<^const>\<open>compareData\<close> does not depend on the application
  number, the address or the time stamp of either snapshot: snapshots of different
  applications are compared like snapshots of the same one, and no error is raised.
\<close>

theorem compareData_ignores_identity:
  "compareData (a\<lparr>elementText := x, url := u, timestamp := t\<rparr>)
               (b\<lparr>elementText := y, url := v, timestamp := t'\<rparr>) = compareData a b"
  by (simp add: compareData_def)

theorem compareData_ignores_identity_witness:
  "compareData (snapshot ''old'' (Some []) (Some [''10'']) ''223199'')
               (snapshot ''new'' (Some []) (Some [''10'']) ''777000'') = [''Main content has changed'']"
  using compareData_ignores_identity [where a = "snapshot ''old'' (Some []) (Some [''10'']) ''1''"
      and x = "''223199''" and u = "''https://pio-przybysz.duw.pl/szczegoly-wniosku/1''"
      and t = "''2025-01-02T03:04:05.000Z''"
      and b = "snapshot ''new'' (Some []) (Some [''10'']) ''1''"
      and y = "''777000''" and v = "''https://pio-przybysz.duw.pl/szczegoly-wniosku/1''"
      and t' = "''2025-01-02T03:04:05.000Z''"]
  by (simp add: snapshot_def compareData_unfold or_empty_def)

section \<open>Properties of the extraction\<close>

text \<open>
  The greedy match never needs the optional group: after the longest run of digits and
  dots the next character is not a dot, so the group cannot start there. A match is the
  longest run of digits and dots that starts with a digit.
\<close>

lemma isWhiteSpace_not_isDotOrDigit: "isWhiteSpace c \<Longrightarrow> \<not> isDotOrDigit c"
  by (auto simp: isWhiteSpace_def isDotOrDigit_def isDigit_def less_eq_char_def)

lemma isDigit_isDotOrDigit: "isDigit c \<Longrightarrow> isDotOrDigit c"
  by (simp add: isDotOrDigit_def)

lemma takeWhile_stronger:
  "(\<And>x. P x \<Longrightarrow> Q x) \<Longrightarrow> takeWhile P s @ takeWhile Q (dropWhile P s) = takeWhile Q s"
  by (induction s) auto

lemma dropWhile_stronger:
  "(\<And>x. P x \<Longrightarrow> Q x) \<Longrightarrow> dropWhile Q (dropWhile P s) = dropWhile Q s"
  by (induction s) auto

lemma match_group_no_dot: "(\<And>c t. s = c # t \<Longrightarrow> c \<noteq> CHR ''.'') \<Longrightarrow> match_group s = None"
  by (cases s) (simp_all add: match_group_def)

lemma match_group_dropWhile: "match_group (dropWhile isDotOrDigit s) = None"
proof (rule match_group_no_dot)
  fix c t
  assume "dropWhile isDotOrDigit s = c # t"
  then have "\<not> isDotOrDigit c" by (metis hd_dropWhile list.distinct(1) list.sel(1))
  then show "c \<noteq> CHR ''.''" by (auto simp: isDotOrDigit_def)
qed

lemma match_at_greedy:
  "match_at s =
     (if takeWhile isDigit s = [] then None
      else Some (takeWhile isDotOrDigit s, dropWhile isDotOrDigit s))"
  by (simp add: match_at_def Let_def match_group_dropWhile
        dropWhile_stronger [of isDigit isDotOrDigit, OF isDigit_isDotOrDigit]
        takeWhile_stronger [of isDigit isDotOrDigit, OF isDigit_isDotOrDigit])

lemma takeWhile_append_none:
  "(\<And>w. w \<in> set ws \<Longrightarrow> \<not> P w) \<Longrightarrow> takeWhile P (s @ ws) = takeWhile P s"
  by (induction s) (auto simp: takeWhile_eq_Nil_iff)

lemma dropWhile_append_none:
  "(\<And>w. w \<in> set ws \<Longrightarrow> \<not> P w) \<Longrightarrow> dropWhile P (s @ ws) = dropWhile P s @ ws"
  by (induction s) (auto simp: dropWhile_eq_self_iff)

lemma match_all_no_digit:
  "(\<And>w. w \<in> set ws \<Longrightarrow> \<not> isDigit w) \<Longrightarrow> match_all (ws @ s) = match_all s"
proof (induction ws)
  case Nil
  then show ?case by simp
next
  case (Cons w ws)
  then have "\<not> isDigit w" by simp
  then have "match_at (w # ws @ s) = None" by (simp add: match_at_greedy)
  then have "match_all ((w # ws) @ s) = match_all (ws @ s)"
    by (subst match_all.simps) simp
  with Cons show ?case by simp
qed

lemma match_all_append_no_digit:
  assumes ws: "\<And>w. w \<in> set ws \<Longrightarrow> \<not> isDotOrDigit w"
  shows "match_all (s @ ws) = match_all s"
proof (induction s rule: match_all.induct)
  case (1 s)
  have nd: "\<And>w. w \<in> set ws \<Longrightarrow> \<not> isDigit w" using ws isDigit_isDotOrDigit by blast
  show ?case
  proof (cases "s = []")
    case True
    have "match_all (ws @ []) = match_all []" by (rule match_all_no_digit) (rule nd)
    with True show ?thesis by simp
  next
    case False
    show ?thesis
    proof (cases "takeWhile isDigit s = []")
      case True
      then have n: "match_at s = None" by (simp add: match_at_greedy)
      from True have "match_at (s @ ws) = None"
        by (simp add: match_at_greedy takeWhile_append_none [of ws isDigit, OF nd])
      then have "match_all (s @ ws) = match_all (tl s @ ws)"
        using False by (subst match_all.simps) simp
      also have "\<dots> = match_all (tl s)" using "1.IH"(1) [OF False n] .
      also have "\<dots> = match_all s" using False n by (subst (2) match_all.simps) simp
      finally show ?thesis .
    next
      case d: False
      let ?m = "takeWhile isDotOrDigit s" and ?r = "dropWhile isDotOrDigit s"
      from d have m: "match_at s = Some (?m, ?r)" by (simp add: match_at_greedy)
      from d have "match_at (s @ ws) = Some (?m, ?r @ ws)"
        by (simp add: match_at_greedy takeWhile_append_none [of ws isDigit, OF nd]
              takeWhile_append_none [of ws isDotOrDigit, OF ws]
              dropWhile_append_none [of ws isDotOrDigit, OF ws])
      then have "match_all (s @ ws) = ?m # match_all (?r @ ws)"
        using False by (subst match_all.simps) simp
      also have "\<dots> = ?m # match_all ?r" using "1.IH"(2) [OF False m refl] by simp
      also have "\<dots> = match_all s" using False m by (subst (2) match_all.simps) simp
      finally show ?thesis .
    qed
  qed
qed

lemma trim_decomposition:
  "s = takeWhile isWhiteSpace s @ trim s
         @ rev (takeWhile isWhiteSpace (rev (dropWhile isWhiteSpace s)))"
proof -
  let ?t = "dropWhile isWhiteSpace s"
  have "trim s @ rev (takeWhile isWhiteSpace (rev ?t))
          = rev (takeWhile isWhiteSpace (rev ?t) @ dropWhile isWhiteSpace (rev ?t))"
    by (simp only: trim_def rev_append)
  also have "\<dots> = ?t" by (simp only: takeWhile_dropWhile_id rev_rev_ident)
  finally have "takeWhile isWhiteSpace s @ trim s @ rev (takeWhile isWhiteSpace (rev ?t))
                  = takeWhile isWhiteSpace s @ ?t"
    by simp
  then show ?thesis by simp
qed

lemma match_all_trim: "match_all (trim s) = match_all s"
proof -
  let ?l = "takeWhile isWhiteSpace s"
  let ?r = "rev (takeWhile isWhiteSpace (rev (dropWhile isWhiteSpace s)))"
  have l: "\<And>w. w \<in> set ?l \<Longrightarrow> \<not> isDigit w"
    using isWhiteSpace_not_isDotOrDigit isDigit_isDotOrDigit by (blast dest: set_takeWhileD)
  have r: "\<And>w. w \<in> set ?r \<Longrightarrow> \<not> isDotOrDigit w"
    using isWhiteSpace_not_isDotOrDigit by (auto dest: set_takeWhileD)
  have "match_all s = match_all (?l @ (trim s @ ?r))"
    using trim_decomposition [of s] by simp
  also have "\<dots> = match_all (trim s @ ?r)" by (rule match_all_no_digit) (rule l)
  also have "\<dots> = match_all (trim s)" by (rule match_all_append_no_digit) (rule r)
  finally show ?thesis by simp
qed

lemma numbers_of_mainText:
  "numbers (fields' (scrapedData_of e p))
     = Some (or_empty (String_match (mainText (scrapedData_of e p))))"
  by (simp add: scrapedData_of_def Let_def String_match_def match_all_trim)

text \<open>
  Claim C9. In a snapshot made by the extraction the numbers are a function of the stored
  text: the matches of the pattern in the page text are the matches in the trimmed text,
  since white space is neither a digit nor a dot. Two such snapshots with the same text
  have the same numbers, so their comparison never reports a change of the numbers without
  a change of the content.
\<close>

theorem scraped_numbers_follow_mainText:
  "(mainText (scrapedData_of e p) = mainText (scrapedData_of e' q)
      \<longrightarrow> numbers (fields' (scrapedData_of e p)) = numbers (fields' (scrapedData_of e' q)))
   \<and> (''Numbers/dates have changed'' \<in> set (compareData (scrapedData_of e p) (scrapedData_of e' q))
      \<longrightarrow> ''Main content has changed'' \<in> set (compareData (scrapedData_of e p) (scrapedData_of e' q)))"
proof -
  have 1: "numbers (fields' (scrapedData_of e p)) = numbers (fields' (scrapedData_of e' q))"
    if "mainText (scrapedData_of e p) = mainText (scrapedData_of e' q)"
    using that by (simp add: numbers_of_mainText)
  then show ?thesis by (auto simp: compareData_unfold)
qed

theorem scraped_numbers_follow_mainText_witness:
  "mainText (scrapedData_of ''1'' (page_with ''  etap 10 z 20.12.2024 ''))
     = mainText (scrapedData_of ''1'' (page_with ''etap 10 z 20.12.2024\<newline>''))
   \<and> numbers (fields' (scrapedData_of ''1'' (page_with ''  etap 10 z 20.12.2024 '')))
     = numbers (fields' (scrapedData_of ''1'' (page_with ''etap 10 z 20.12.2024\<newline>'')))
   \<and> ''Numbers/dates have changed''
        \<in> set (compareData (scrapedData_of ''1'' (page_with ''etap 10''))
                            (scrapedData_of ''1'' (page_with ''etap 11'')))
   \<and> ''Main content has changed''
        \<in> set (compareData (scrapedData_of ''1'' (page_with ''etap 10''))
                            (scrapedData_of ''1'' (page_with ''etap 11'')))"
proof -
  have a: "mainText (scrapedData_of ''1'' (page_with ''  etap 10 z 20.12.2024 ''))
     = mainText (scrapedData_of ''1'' (page_with ''etap 10 z 20.12.2024\<newline>''))"
    by code_simp
  have b: "''Numbers/dates have changed''
        \<in> set (compareData (scrapedData_of ''1'' (page_with ''etap 10''))
                            (scrapedData_of ''1'' (page_with ''etap 11'')))"
    by code_simp
  from a b scraped_numbers_follow_mainText [of "''1''" "page_with ''  etap 10 z 20.12.2024 ''"
          "''1''" "page_with ''etap 10 z 20.12.2024\<newline>''"]
       scraped_numbers_follow_mainText [of "''1''" "page_with ''etap 10''" "''1''" "page_with ''etap 11''"]
  show ?thesis by blast
qed

section \<open>Properties of the snapshot store\<close>

text \<open>Decimal digits, two-digit padding and the file name: the name determines the clock
  reading, and for readings in four-digit years the order of names is the order of
  readings.\<close>

lemma of_char_digit_char: "d < 10 \<Longrightarrow> (of_char (digit_char d) :: nat) = 48 + d"
  by (simp add: digit_char_def)

lemma isDigit_digit_char: "d < 10 \<Longrightarrow> isDigit (digit_char d)"
  by (simp add: isDigit_def less_eq_char_def of_char_digit_char)

lemma digit_char_inj: "a < 10 \<Longrightarrow> b < 10 \<Longrightarrow> digit_char a = digit_char b \<Longrightarrow> a = b"
proof -
  assume a: "a < 10" and b: "b < 10" and e: "digit_char a = digit_char b"
  from e have "(of_char (digit_char a) :: nat) = of_char (digit_char b)" by simp
  with a b show ?thesis by (simp add: of_char_digit_char)
qed

lemma digit_char_less: "a < 10 \<Longrightarrow> b < 10 \<Longrightarrow> digit_char a < digit_char b \<longleftrightarrow> a < b"
  by (simp add: less_char_def of_char_digit_char)

lemma String_nat_nonempty: "String_nat n \<noteq> []"
  by (subst String_nat.simps) simp

lemma String_nat_digits: "c \<in> set (String_nat n) \<Longrightarrow> isDigit c"
proof (induction n arbitrary: c rule: String_nat.induct)
  case (1 n)
  show ?case
  proof (cases "n < 10")
    case True
    with "1.prems" show ?thesis
      by (subst (asm) String_nat.simps) (simp add: isDigit_digit_char)
  next
    case False
    with "1.prems" have "c \<in> set (String_nat (n div 10)) \<or> c = digit_char (n mod 10)"
      by (subst (asm) String_nat.simps) auto
    with "1.IH" [OF False] show ?thesis by (auto simp: isDigit_digit_char)
  qed
qed

lemma String_nat_inj: "String_nat n = String_nat m \<Longrightarrow> n = m"
proof (induction n arbitrary: m rule: String_nat.induct)
  case (1 n)
  show ?case
  proof (cases "n < 10")
    case n: True
    show ?thesis
    proof (cases "m < 10")
      case True
      with n "1.prems" have "digit_char n = digit_char m"
        by (simp add: String_nat.simps [of n] String_nat.simps [of m])
      with n True show ?thesis by (rule digit_char_inj)
    next
      case False
      with n "1.prems" have "String_nat (m div 10) = []"
        by (simp add: String_nat.simps [of n] String_nat.simps [of m])
      then show ?thesis by (simp add: String_nat_nonempty)
    qed
  next
    case n: False
    show ?thesis
    proof (cases "m < 10")
      case True
      with n "1.prems" have "String_nat (n div 10) = []"
        by (simp add: String_nat.simps [of n] String_nat.simps [of m])
      then show ?thesis by (simp add: String_nat_nonempty)
    next
      case False
      with n "1.prems" have e: "String_nat (n div 10) = String_nat (m div 10)"
        and d: "digit_char (n mod 10) = digit_char (m mod 10)"
        by (simp_all add: String_nat.simps [of n] String_nat.simps [of m])
      from "1.IH" [OF n e] have "n div 10 = m div 10" .
      moreover from d have "n mod 10 = m mod 10" by (intro digit_char_inj) simp_all
      ultimately show ?thesis by (metis div_mult_mod_eq)
    qed
  qed
qed

lemma length_String_nat_ge2: "10 \<le> n \<Longrightarrow> 2 \<le> length (String_nat n)"
  using String_nat_nonempty [of "n div 10"]
  by (subst String_nat.simps) (simp add: Suc_le_eq)

lemma hd_String_nat: "0 < n \<Longrightarrow> hd (String_nat n) \<noteq> CHR ''0''"
proof (induction n rule: String_nat.induct)
  case (1 n)
  show ?case
  proof (cases "n < 10")
    case True
    have "(of_char (digit_char n) :: nat) \<noteq> of_char (CHR ''0'')"
      using True "1.prems" by (simp add: of_char_digit_char)
    then have "digit_char n \<noteq> CHR ''0''" by auto
    with True show ?thesis by (simp add: String_nat.simps [of n])
  next
    case False
    then have "0 < n div 10" by simp
    from "1.IH" [OF False this] False show ?thesis
      by (simp add: String_nat.simps [of n] String_nat_nonempty)
  qed
qed

text \<open>Two digits: \<^verbatim>\<open>String(n).padStart(2, '0')\<close>.\<close>

lemma padStart2:
  "padStart (String_nat n) 2 (CHR ''0'') = (if n < 10 then [CHR ''0'', digit_char n] else String_nat n)"
proof (cases "n < 10")
  case True
  then show ?thesis by (simp add: padStart_def String_nat.simps [of n])
next
  case False
  with length_String_nat_ge2 [of n] show ?thesis by (simp add: padStart_def)
qed

lemma padStart2_digits: "c \<in> set (padStart (String_nat n) 2 (CHR ''0'')) \<Longrightarrow> isDigit c"
  by (auto simp: padStart_def isDigit_def dest: String_nat_digits)

lemma padStart2_inj:
  assumes "padStart (String_nat n) 2 (CHR ''0'') = padStart (String_nat m) 2 (CHR ''0'')"
  shows "n = m"
proof (cases "n < 10")
  case n: True
  show ?thesis
  proof (cases "m < 10")
    case True
    with n assms have "digit_char n = digit_char m" by (simp add: padStart2)
    with n True show ?thesis by (rule digit_char_inj)
  next
    case False
    with n assms have "String_nat m = [CHR ''0'', digit_char n]" by (simp add: padStart2)
    then have "hd (String_nat m) = CHR ''0''" by simp
    with hd_String_nat [of m] False show ?thesis by simp
  qed
next
  case n: False
  show ?thesis
  proof (cases "m < 10")
    case True
    with n assms have "String_nat n = [CHR ''0'', digit_char m]" by (simp add: padStart2)
    then have "hd (String_nat n) = CHR ''0''" by simp
    with hd_String_nat [of n] n show ?thesis by simp
  next
    case False
    with n assms show ?thesis by (simp add: padStart2 String_nat_inj)
  qed
qed

lemma digits_then_separator:
  assumes xs: "\<And>c. c \<in> set xs \<Longrightarrow> isDigit c" and ys: "\<And>c. c \<in> set ys \<Longrightarrow> isDigit c"
    and a: "\<not> isDigit a" and b: "\<not> isDigit b"
    and eq: "xs @ a # r = ys @ b # r'"
  shows "xs = ys \<and> a = b \<and> r = r'"
proof -
  have "takeWhile isDigit (xs @ a # r) = xs" using xs a by simp
  moreover have "takeWhile isDigit (ys @ b # r') = ys" using ys b by simp
  ultimately have "xs = ys" using eq by simp
  with eq show ?thesis by simp
qed

lemma saveData_filename_inj:
  assumes "saveData_filename a = saveData_filename b"
  shows "a = b"
proof -
  let ?p = "\<lambda>n. padStart (String_nat n) 2 (CHR ''0'')"
  have sep: "\<not> isDigit (CHR ''-'')" "\<not> isDigit (CHR ''T'')" "\<not> isDigit (CHR ''.'')"
    by (simp_all add: isDigit_def less_eq_char_def)
  from assms have
    "String_nat (getFullYear a) @ CHR ''-'' # (?p (getMonth a + 1) @ CHR ''-'' # (?p (getDate a)
        @ CHR ''T'' # (?p (getHours a) @ CHR ''-'' # (?p (getMinutes a) @ CHR ''-'' #
          (?p (getSeconds a) @ CHR ''.'' # ''json'')))))
     = String_nat (getFullYear b) @ CHR ''-'' # (?p (getMonth b + 1) @ CHR ''-'' # (?p (getDate b)
        @ CHR ''T'' # (?p (getHours b) @ CHR ''-'' # (?p (getMinutes b) @ CHR ''-'' #
          (?p (getSeconds b) @ CHR ''.'' # ''json'')))))"
    by (simp add: saveData_filename_def saveData_timestamp_def)
  from digits_then_separator [OF String_nat_digits String_nat_digits sep(1) sep(1) this]
  have y: "String_nat (getFullYear a) = String_nat (getFullYear b)"
    and r1: "?p (getMonth a + 1) @ CHR ''-'' # (?p (getDate a)
        @ CHR ''T'' # (?p (getHours a) @ CHR ''-'' # (?p (getMinutes a) @ CHR ''-'' #
          (?p (getSeconds a) @ CHR ''.'' # ''json''))))
      = ?p (getMonth b + 1) @ CHR ''-'' # (?p (getDate b)
        @ CHR ''T'' # (?p (getHours b) @ CHR ''-'' # (?p (getMinutes b) @ CHR ''-'' #
          (?p (getSeconds b) @ CHR ''.'' # ''json''))))"
    by simp_all
  from digits_then_separator [OF padStart2_digits padStart2_digits sep(1) sep(1) r1]
  have mo: "?p (getMonth a + 1) = ?p (getMonth b + 1)"
    and r2: "?p (getDate a)
        @ CHR ''T'' # (?p (getHours a) @ CHR ''-'' # (?p (getMinutes a) @ CHR ''-'' #
          (?p (getSeconds a) @ CHR ''.'' # ''json'')))
      = ?p (getDate b)
        @ CHR ''T'' # (?p (getHours b) @ CHR ''-'' # (?p (getMinutes b) @ CHR ''-'' #
          (?p (getSeconds b) @ CHR ''.'' # ''json'')))"
    by simp_all
  from digits_then_separator [OF padStart2_digits padStart2_digits sep(2) sep(2) r2]
  have da: "?p (getDate a) = ?p (getDate b)"
    and r3: "?p (getHours a) @ CHR ''-'' # (?p (getMinutes a) @ CHR ''-'' #
          (?p (getSeconds a) @ CHR ''.'' # ''json''))
      = ?p (getHours b) @ CHR ''-'' # (?p (getMinutes b) @ CHR ''-'' #
          (?p (getSeconds b) @ CHR ''.'' # ''json''))"
    by simp_all
  from digits_then_separator [OF padStart2_digits padStart2_digits sep(1) sep(1) r3]
  have ho: "?p (getHours a) = ?p (getHours b)"
    and r4: "?p (getMinutes a) @ CHR ''-'' # (?p (getSeconds a) @ CHR ''.'' # ''json'')
      = ?p (getMinutes b) @ CHR ''-'' # (?p (getSeconds b) @ CHR ''.'' # ''json'')"
    by simp_all
  from digits_then_separator [OF padStart2_digits padStart2_digits sep(1) sep(1) r4]
  have mi: "?p (getMinutes a) = ?p (getMinutes b)"
    and r5: "?p (getSeconds a) @ CHR ''.'' # ''json'' = ?p (getSeconds b) @ CHR ''.'' # ''json''"
    by simp_all
  from r5 have se: "?p (getSeconds a) = ?p (getSeconds b)" by simp
  from y have "getFullYear a = getFullYear b" by (rule String_nat_inj)
  moreover from mo have "getMonth a + 1 = getMonth b + 1" by (rule padStart2_inj)
  moreover from da have "getDate a = getDate b" by (rule padStart2_inj)
  moreover from ho have "getHours a = getHours b" by (rule padStart2_inj)
  moreover from mi have "getMinutes a = getMinutes b" by (rule padStart2_inj)
  moreover from se have "getSeconds a = getSeconds b" by (rule padStart2_inj)
  ultimately show ?thesis by simp
qed

lemma update_new_key: "k \<notin> fst ` set al \<Longrightarrow> AList.update k v al = al @ [(k, v)]"
  by (induction al) auto

lemma less_div_mod_10:
  "(n::nat) < m \<longleftrightarrow> n div 10 < m div 10 \<or> (n div 10 = m div 10 \<and> n mod 10 < m mod 10)"
proof -
  have lin: "\<And>q r q' r'::nat. r < 10 \<Longrightarrow> r' < 10 \<Longrightarrow>
      (10 * q + r < 10 * q' + r') = (q < q' \<or> (q = q' \<and> r < r'))"
    by arith
  have "n < m \<longleftrightarrow> 10 * (n div 10) + n mod 10 < 10 * (m div 10) + m mod 10" by simp
  also have "\<dots> \<longleftrightarrow> n div 10 < m div 10 \<or> (n div 10 = m div 10 \<and> n mod 10 < m mod 10)"
    by (rule lin) simp_all
  finally show ?thesis .
qed

lemma lex_append_same_length:
  "length a = length b \<Longrightarrow> (a @ r < b @ r' \<longleftrightarrow> a < b \<or> (a = b \<and> r < r'))"
  for a b :: "'a::linorder list"
  by (induction a b rule: list_induct2) auto

lemma length_String_nat_1: "length (String_nat n) = 1 \<longleftrightarrow> n < 10"
proof (cases "n < 10")
  case True
  then show ?thesis by (simp add: String_nat.simps [of n])
next
  case False
  with length_String_nat_ge2 [of n] show ?thesis by simp
qed

lemma String_nat_less:
  "length (String_nat n) = length (String_nat m) \<Longrightarrow> (String_nat n < String_nat m \<longleftrightarrow> n < m)"
proof (induction n arbitrary: m rule: String_nat.induct)
  case (1 n)
  show ?case
  proof (cases "n < 10")
    case True
    with "1.prems" have m: "m < 10" using length_String_nat_1 by metis
    with True show ?thesis
      by (simp add: String_nat.simps [of n] String_nat.simps [of m] digit_char_less)
  next
    case False
    with "1.prems" have m: "\<not> m < 10" using length_String_nat_1 by metis
    from False m "1.prems" have l: "length (String_nat (n div 10)) = length (String_nat (m div 10))"
      by (simp add: String_nat.simps [of n] String_nat.simps [of m])
    have "String_nat n < String_nat m \<longleftrightarrow>
        String_nat (n div 10) < String_nat (m div 10)
        \<or> (String_nat (n div 10) = String_nat (m div 10)
            \<and> [digit_char (n mod 10)] < [digit_char (m mod 10)])"
      using False m by (simp add: String_nat.simps [of n] String_nat.simps [of m]
          lex_append_same_length [OF l])
    also have "\<dots> \<longleftrightarrow> n div 10 < m div 10 \<or> (n div 10 = m div 10 \<and> n mod 10 < m mod 10)"
      using "1.IH" [OF False l] String_nat_inj [of "n div 10" "m div 10"]
      by (auto simp: digit_char_less)
    also have "\<dots> \<longleftrightarrow> n < m" by (rule less_div_mod_10 [symmetric])
    finally show ?thesis .
  qed
qed

lemma length_String_nat_4:
  assumes "1000 \<le> n" "n < 10000"
  shows "length (String_nat n) = 4"
proof -
  from assms have "\<not> n < 10 \<and> \<not> n div 10 < 10 \<and> \<not> n div 10 div 10 < 10
      \<and> n div 10 div 10 div 10 < 10"
    by (simp add: div_mult2_eq [symmetric] div_less_iff_less_mult
          less_eq_div_iff_mult_less_eq not_less)
  then show ?thesis
    by (simp add: String_nat.simps [of n] String_nat.simps [of "n div 10"]
        String_nat.simps [of "n div 10 div 10"] String_nat.simps [of "n div 10 div 10 div 10"])
qed

lemma digit_char_0: "digit_char 0 = CHR ''0''"
  by code_simp

lemma padStart2_below_100:
  assumes "n < 100"
  shows "padStart (String_nat n) 2 (CHR ''0'') = [digit_char (n div 10), digit_char (n mod 10)]"
proof (cases "n < 10")
  case True
  then show ?thesis by (simp add: padStart2 digit_char_0)
next
  case False
  from assms have "n div 10 < 10" by simp
  then have "String_nat (n div 10) = [digit_char (n div 10)]"
    by (simp add: String_nat.simps [of "n div 10"])
  with False show ?thesis by (simp add: padStart_def String_nat.simps [of n])
qed

lemma padStart2_less:
  assumes "n < 100" "m < 100"
  shows "padStart (String_nat n) 2 (CHR ''0'') < padStart (String_nat m) 2 (CHR ''0'') \<longleftrightarrow> n < m"
proof -
  have "n div 10 < 10" "m div 10 < 10" using assms by simp_all
  moreover have "n mod 10 < 10" "m mod 10 < 10" by simp_all
  ultimately have "padStart (String_nat n) 2 (CHR ''0'') < padStart (String_nat m) 2 (CHR ''0'')
      \<longleftrightarrow> n div 10 < m div 10 \<or> (n div 10 = m div 10 \<and> n mod 10 < m mod 10)"
    using assms digit_char_inj [of "n div 10" "m div 10"]
    by (auto simp: padStart2_below_100 digit_char_less)
  then show ?thesis by (simp add: less_div_mod_10 [of n m])
qed

lemma length_padStart2: "n < 100 \<Longrightarrow> length (padStart (String_nat n) 2 (CHR ''0'')) = 2"
  by (simp add: padStart2_below_100)

lemma saveData_filename_less:
  assumes a: "valid_Date a" and b: "valid_Date b"
  shows "saveData_filename a < saveData_filename b \<longleftrightarrow> reading_before a b"
proof -
  let ?p = "\<lambda>n. padStart (String_nat n) 2 (CHR ''0'')"
  have ly: "length (String_nat (getFullYear a)) = length (String_nat (getFullYear b))"
    using a b by (simp add: valid_Date_def length_String_nat_4)
  have lm: "length (?p (getMonth a + 1)) = length (?p (getMonth b + 1))"
    and ld: "length (?p (getDate a)) = length (?p (getDate b))"
    and lh: "length (?p (getHours a)) = length (?p (getHours b))"
    and li: "length (?p (getMinutes a)) = length (?p (getMinutes b))"
    and ls: "length (?p (getSeconds a)) = length (?p (getSeconds b))"
    using a b by (simp_all add: valid_Date_def length_padStart2)
  have y: "String_nat (getFullYear a) < String_nat (getFullYear b) \<longleftrightarrow> getFullYear a < getFullYear b"
    by (rule String_nat_less [OF ly])
  have m: "?p (getMonth a + 1) < ?p (getMonth b + 1) \<longleftrightarrow> getMonth a < getMonth b"
    and d: "?p (getDate a) < ?p (getDate b) \<longleftrightarrow> getDate a < getDate b"
    and h: "?p (getHours a) < ?p (getHours b) \<longleftrightarrow> getHours a < getHours b"
    and i: "?p (getMinutes a) < ?p (getMinutes b) \<longleftrightarrow> getMinutes a < getMinutes b"
    and s: "?p (getSeconds a) < ?p (getSeconds b) \<longleftrightarrow> getSeconds a < getSeconds b"
    using a b by (simp_all add: valid_Date_def padStart2_less)
  have ye: "String_nat (getFullYear a) = String_nat (getFullYear b) \<longleftrightarrow> getFullYear a = getFullYear b"
    using String_nat_inj by auto
  have me: "?p (getMonth a + 1) = ?p (getMonth b + 1) \<longleftrightarrow> getMonth a = getMonth b"
    and de: "?p (getDate a) = ?p (getDate b) \<longleftrightarrow> getDate a = getDate b"
    and he: "?p (getHours a) = ?p (getHours b) \<longleftrightarrow> getHours a = getHours b"
    and ie: "?p (getMinutes a) = ?p (getMinutes b) \<longleftrightarrow> getMinutes a = getMinutes b"
  proof -
    have e: "?p n = ?p k \<longleftrightarrow> n = k" for n k
      using padStart2_inj by auto
    from e [of "getMonth a + 1" "getMonth b + 1"]
    show "?p (getMonth a + 1) = ?p (getMonth b + 1) \<longleftrightarrow> getMonth a = getMonth b" by simp
    show "?p (getDate a) = ?p (getDate b) \<longleftrightarrow> getDate a = getDate b" by (rule e)
    show "?p (getHours a) = ?p (getHours b) \<longleftrightarrow> getHours a = getHours b" by (rule e)
    show "?p (getMinutes a) = ?p (getMinutes b) \<longleftrightarrow> getMinutes a = getMinutes b" by (rule e)
  qed
  have "saveData_filename a < saveData_filename b \<longleftrightarrow>
      String_nat (getFullYear a) @ CHR ''-'' # (?p (getMonth a + 1) @ CHR ''-'' # (?p (getDate a)
        @ CHR ''T'' # (?p (getHours a) @ CHR ''-'' # (?p (getMinutes a) @ CHR ''-'' #
          (?p (getSeconds a) @ ''.json'')))))
      < String_nat (getFullYear b) @ CHR ''-'' # (?p (getMonth b + 1) @ CHR ''-'' # (?p (getDate b)
        @ CHR ''T'' # (?p (getHours b) @ CHR ''-'' # (?p (getMinutes b) @ CHR ''-'' #
          (?p (getSeconds b) @ ''.json'')))))"
    by (simp add: saveData_filename_def saveData_timestamp_def)
  also have "\<dots> \<longleftrightarrow> reading_before a b"
    unfolding lex_append_same_length [OF ly] lex_append_same_length [OF lm]
      lex_append_same_length [OF ld] lex_append_same_length [OF lh]
      lex_append_same_length [OF li] lex_append_same_length [OF ls]
      Cons_less_Cons y m d h i s ye me de he ie reading_before_def
    by simp
  finally show ?thesis .
qed

lemma last_sorted_Max: "sorted xs \<Longrightarrow> xs \<noteq> [] \<Longrightarrow> last xs = Max (set xs)"
  for xs :: "'a::linorder list"
proof (induction xs)
  case Nil
  then show ?case by simp
next
  case (Cons x xs)
  show ?case
  proof (cases "xs = []")
    case True
    then show ?thesis by simp
  next
    case False
    with Cons have "last xs = Max (set xs)" and "\<forall>y\<in>set xs. x \<le> y" by simp_all
    moreover from False have "Max (set xs) \<in> set xs" by simp
    ultimately have "max x (Max (set xs)) = Max (set xs)" by (simp add: max_def)
    with False \<open>last xs = Max (set xs)\<close> show ?thesis by simp
  qed
qed

lemma hd_rev_sort: "xs \<noteq> [] \<Longrightarrow> hd (rev (sort xs)) = Max (set xs)"
  for xs :: "'a::linorder list"
proof -
  assume "xs \<noteq> []"
  then have "sort xs \<noteq> []" by (metis length_0_conv length_sort)
  with last_sorted_Max [of "sort xs"] show ?thesis by (simp add: hd_rev)
qed

lemma latest_of_sorted:
  "(case rev (sort xs) of [] \<Rightarrow> None | file # _ \<Rightarrow> Some file)
     = (if xs = [] then None else Some (Max (set xs)))"
  for xs :: "'a::linorder list"
proof (cases "xs = []")
  case True
  then show ?thesis by simp
next
  case False
  then have "length (rev (sort xs)) \<noteq> 0" by simp
  then obtain f fs where r: "rev (sort xs) = f # fs" by (cases "rev (sort xs)") auto
  then have "f = hd (rev (sort xs))" by simp
  with hd_rev_sort [OF False] have "f = Max (set xs)" by simp
  with r False show ?thesis by simp
qed

lemma getLatestDataFile_Max:
  "getLatestDataFile (Some entries) =
     (let files = filter (\<lambda>file. startsWith file ''szczegoly-wniosku_'' \<and> endsWith file ''.json'')
                    (map fst entries)
      in if files = [] then None else Some (Max (set files)))"
  unfolding getLatestDataFile_def Let_def option.case latest_of_sorted ..

lemma startsWith_append: "startsWith (p @ xs) p"
  by (simp add: startsWith_def)

lemma endsWith_append: "endsWith (xs @ p) p"
  by (simp add: endsWith_def)

lemma saveData_filename_matches:
  "startsWith (saveData_filename d) ''szczegoly-wniosku_'' \<and> endsWith (saveData_filename d) ''.json''"
proof
  show "startsWith (saveData_filename d) ''szczegoly-wniosku_''"
    unfolding saveData_filename_def by (rule startsWith_append)
  have "saveData_filename d = (''szczegoly-wniosku_'' @ saveData_timestamp d) @ ''.json''"
    unfolding saveData_filename_def by (simp only: append_assoc)
  then show "endsWith (saveData_filename d) ''.json''"
    by (simp only: endsWith_append)
qed

lemma getLatestDataFile_captures:
  assumes names: "filter (\<lambda>file. startsWith file ''szczegoly-wniosku_'' \<and> endsWith file ''.json'')
                    (map fst entries)
                  = map (\<lambda>t. saveData_filename (new_Date LocalTZA t)) ts"
    and ne: "ts \<noteq> []"
    and valid: "\<And>t. t \<in> set ts \<Longrightarrow> valid_Date (new_Date LocalTZA t)"
    and mono: "\<And>t t'. t \<in> set ts \<Longrightarrow> t' \<in> set ts \<Longrightarrow> t < t'
                 \<Longrightarrow> reading_before (new_Date LocalTZA t) (new_Date LocalTZA t')"
  shows "getLatestDataFile (Some entries) = Some (saveData_filename (new_Date LocalTZA (Max (set ts))))"
proof -
  let ?files = "filter (\<lambda>file. startsWith file ''szczegoly-wniosku_'' \<and> endsWith file ''.json'')
                    (map fst entries)"
  let ?name = "\<lambda>t. saveData_filename (new_Date LocalTZA t)"
  from ne have last: "Max (set ts) \<in> set ts" by simp
  have "Max (set ?files) = ?name (Max (set ts))"
  proof (rule Max_eqI)
    show "finite (set ?files)" by simp
    show "?name (Max (set ts)) \<in> set ?files" unfolding names using last by simp
    fix y
    assume "y \<in> set ?files"
    then obtain t where t: "t \<in> set ts" and y: "y = ?name t" unfolding names by auto
    from t have "t \<le> Max (set ts)" by simp
    then consider "t = Max (set ts)" | "t < Max (set ts)" by linarith
    then show "y \<le> ?name (Max (set ts))"
    proof cases
      case 1
      with y show ?thesis by simp
    next
      case 2
      from mono [OF t last 2] saveData_filename_less [OF valid [OF t] valid [OF last]] y
      show ?thesis by simp
    qed
  qed
  moreover from ne names have "?files \<noteq> []" by simp
  ultimately show ?thesis by (simp add: getLatestDataFile_Max Let_def)
qed

lemma digit_char_numeral:
  "digit_char 0 = CHR ''0''" "digit_char (Suc 0) = CHR ''1''" "digit_char 2 = CHR ''2''"
  "digit_char 3 = CHR ''3''" "digit_char 4 = CHR ''4''" "digit_char 5 = CHR ''5''"
  "digit_char 6 = CHR ''6''" "digit_char 7 = CHR ''7''" "digit_char 8 = CHR ''8''"
  "digit_char 9 = CHR ''9''"
  by code_simp+

lemmas filename_eval = saveData_filename_def saveData_timestamp_def date_at_def String_nat.simps
  padStart_def digit_char_numeral

subsection \<open>The calendar of the clock\<close>

text \<open>A year begins \<^const>\<open>DaysInYear\<close> days after the year before, so \<^const>\<open>DayFromYear\<close>
  grows with the year, and the year found by \<^const>\<open>YearFromTime\<close> is the largest one that has
  begun at the time value.\<close>

lemma int_div_add_one:
  "1 < k \<Longrightarrow> (n + 1) div k = n div k + (if (n + 1) mod k = 0 then 1 else 0)"
  for n k :: int
proof -
  assume k: "1 < k"
  then have r: "0 \<le> n mod k" "n mod k < k" by simp_all
  from k have o: "1 div k = 0" "1 mod k = 1"
    by (simp_all add: div_pos_pos_trivial mod_pos_pos_trivial)
  have A: "(n + 1) div k = n div k + (n mod k + 1) div k"
    using div_add1_eq [of n 1 k] o by simp
  have B: "(n + 1) mod k = (n mod k + 1) mod k" by (simp add: mod_add_left_eq)
  show ?thesis
  proof (cases "n mod k + 1 = k")
    case True
    with k have "(n mod k + 1) div k = 1" "(n mod k + 1) mod k = 0" by simp_all
    with A B show ?thesis by simp
  next
    case False
    with r have lt: "0 \<le> n mod k + 1" "n mod k + 1 < k" by simp_all
    then have "(n mod k + 1) div k = 0" "(n mod k + 1) mod k = n mod k + 1"
      by (simp_all add: div_pos_pos_trivial mod_pos_pos_trivial)
    with A B r show ?thesis by simp
  qed
qed

lemma year_mod_shift:
  "(y - 1968) mod 4 = y mod 4" "(y - 1900) mod 100 = y mod 100" "(y - 1600) mod 400 = y mod 400"
  for y :: int
proof -
  have "(y - 1968) mod 4 = (y + (- 492) * 4) mod 4" by simp
  also have "\<dots> = y mod 4" by (rule mod_mult_self1)
  finally show "(y - 1968) mod 4 = y mod 4" .
  have "(y - 1900) mod 100 = (y + (- 19) * 100) mod 100" by simp
  also have "\<dots> = y mod 100" by (rule mod_mult_self1)
  finally show "(y - 1900) mod 100 = y mod 100" .
  have "(y - 1600) mod 400 = (y + (- 4) * 400) mod 400" by simp
  also have "\<dots> = y mod 400" by (rule mod_mult_self1)
  finally show "(y - 1600) mod 400 = y mod 400" .
qed

lemma leap_year_dvd: "y mod 100 = 0 \<Longrightarrow> y mod 4 = 0" "y mod 400 = 0 \<Longrightarrow> y mod 100 = 0"
  for y :: int
proof -
  have 1: "(4 :: int) dvd 100" and 2: "(100 :: int) dvd 400" by simp_all
  show "y mod 100 = 0 \<Longrightarrow> y mod 4 = 0" using 1 by (meson dvd_trans mod_0_imp_dvd dvd_imp_mod_0)
  show "y mod 400 = 0 \<Longrightarrow> y mod 100 = 0" using 2 by (meson dvd_trans mod_0_imp_dvd dvd_imp_mod_0)
qed

lemma DayFromYear_Suc: "DayFromYear (y + 1) = DayFromYear y + DaysInYear y"
proof -
  have a: "(y + 1 - 1969) div 4 = (y - 1969) div 4 + (if y mod 4 = 0 then 1 else 0)"
    using int_div_add_one [of 4 "y - 1969"] year_mod_shift(1) [of y] by (simp add: algebra_simps)
  have b: "(y + 1 - 1901) div 100 = (y - 1901) div 100 + (if y mod 100 = 0 then 1 else 0)"
    using int_div_add_one [of 100 "y - 1901"] year_mod_shift(2) [of y] by (simp add: algebra_simps)
  have c: "(y + 1 - 1601) div 400 = (y - 1601) div 400 + (if y mod 400 = 0 then 1 else 0)"
    using int_div_add_one [of 400 "y - 1601"] year_mod_shift(3) [of y] by (simp add: algebra_simps)
  show ?thesis
    unfolding DayFromYear_def DaysInYear_def a b c using leap_year_dvd [of y] by auto
qed

lemma DaysInYear_bounds: "365 \<le> DaysInYear y" "DaysInYear y \<le> 366"
  by (simp_all add: DaysInYear_def)


lemma DayFromYear_1970: "DayFromYear 1970 = 0"
  by (simp add: DayFromYear_def)

lemma DayFromYear_from_1970:
  "1970 \<le> y \<Longrightarrow> 365 * (y - 1970) \<le> DayFromYear y \<and> DayFromYear y \<le> 366 * (y - 1970)"
proof (induction y rule: int_ge_induct)
  case base
  show ?case by (simp add: DayFromYear_1970)
next
  case (step i)
  with DaysInYear_bounds [of i] show ?case by (simp add: DayFromYear_Suc)
qed

lemma DayFromYear_until_1970:
  "y \<le> 1970 \<Longrightarrow> 366 * (y - 1970) \<le> DayFromYear y \<and> DayFromYear y \<le> 365 * (y - 1970)"
proof (induction y rule: int_le_induct)
  case base
  show ?case by (simp add: DayFromYear_1970)
next
  case (step i)
  from DayFromYear_Suc [of "i - 1"] have "DayFromYear i = DayFromYear (i - 1) + DaysInYear (i - 1)"
    by simp
  with step DaysInYear_bounds [of "i - 1"] show ?case by simp
qed

lemma DayFromYear_less: "y < z \<Longrightarrow> DayFromYear y < DayFromYear z"
proof (induction z rule: int_gr_induct)
  case base
  with DaysInYear_bounds(1) [of y] show ?case by (simp add: DayFromYear_Suc)
next
  case (step i)
  with DaysInYear_bounds(1) [of i] show ?case by (simp add: DayFromYear_Suc)
qed

lemma DayFromYear_le: "DayFromYear y \<le> DayFromYear z \<longleftrightarrow> y \<le> z"
  using DayFromYear_less [of y z] DayFromYear_less [of z y] by (cases y z rule: linorder_cases) auto

lemma sorted_le_last: "sorted xs \<Longrightarrow> x \<in> set xs \<Longrightarrow> x \<le> last xs"
  for xs :: "int list"
  by (induction xs) auto

lemma last_filter_sorted:
  fixes xs :: "int list"
  assumes "sorted xs" and "x \<in> set xs" and "P x"
  shows "P (last (filter P xs)) \<and> last (filter P xs) \<in> set xs \<and> x \<le> last (filter P xs)"
proof -
  from assms have x: "x \<in> set (filter P xs)" by simp
  then have "filter P xs \<noteq> []" by (metis empty_iff empty_set)
  then have "last (filter P xs) \<in> set (filter P xs)" by (rule last_in_set)
  moreover from assms(1) have "sorted (filter P xs)" by (rule sorted_wrt_filter)
  then have "x \<le> last (filter P xs)" using x by (rule sorted_le_last)
  ultimately show ?thesis by simp
qed

lemma int_div_bounds: "0 < k \<Longrightarrow> k * (d div k) \<le> d \<and> d < k * (d div k + 1)"
  for d k :: int
proof -
  assume k: "0 < k"
  define q r where "q = d div k" and "r = d mod k"
  have "d = k * q + r" by (simp add: q_def r_def)
  moreover from k have "0 \<le> r" "r < k" by (simp_all add: r_def)
  moreover have "k * (q + 1) = k * q + k" by (simp add: distrib_left)
  ultimately have "k * q \<le> d \<and> d < k * (q + 1)" by linarith
  then show ?thesis by (simp add: q_def)
qed

lemma YearFromTime_bounds:
  fixes d :: int
  defines "lo \<equiv> 1970 + min (d div 365) (d div 366)"
    and "hi \<equiv> 1970 + max (d div 365) (d div 366)"
  shows "lo \<le> hi" and "DayFromYear lo \<le> d" and "d < DayFromYear (hi + 1)"
proof -
  define q5 q6 where "q5 = d div 365" and "q6 = d div 366"
  from int_div_bounds [of 365 d] have m5: "365 * q5 \<le> d" "d < 365 * (q5 + 1)"
    by (simp_all add: q5_def)
  from int_div_bounds [of 366 d] have m6: "366 * q6 \<le> d" "d < 366 * (q6 + 1)"
    by (simp_all add: q6_def)
  have lo_def': "lo = 1970 + min q5 q6" and hi_def': "hi = 1970 + max q5 q6"
    by (simp_all add: lo_def hi_def q5_def q6_def)
  show "lo \<le> hi" by (simp add: lo_def' hi_def')
  have "DayFromYear lo \<le> d \<and> d < DayFromYear (hi + 1)"
  proof (cases "0 \<le> d")
    case True
    then have o: "q6 \<le> q5" unfolding q5_def q6_def by (intro zdiv_mono2) simp_all
    from True have n: "0 \<le> q6" by (simp add: q6_def)
    from o have lo: "lo = 1970 + q6" and hi: "hi = 1970 + q5"
      by (simp_all add: lo_def' hi_def')
    from DayFromYear_from_1970 [of lo] n lo have "DayFromYear lo \<le> 366 * q6" by simp
    moreover from DayFromYear_from_1970 [of "hi + 1"] n o hi
    have "365 * (q5 + 1) \<le> DayFromYear (hi + 1)" by simp
    ultimately show ?thesis using m5 m6 by linarith
  next
    case False
    then have neg: "d < 0" by simp
    then have o: "q5 \<le> q6" unfolding q5_def q6_def by (intro zdiv_mono2_neg) simp_all
    from neg have n: "q6 < 0" by (simp add: q6_def div_neg_pos_less0)
    from o have lo: "lo = 1970 + q5" and hi: "hi = 1970 + q6"
      by (simp_all add: lo_def' hi_def')
    from DayFromYear_until_1970 [of lo] n o lo have "DayFromYear lo \<le> 365 * q5" by simp
    moreover from DayFromYear_until_1970 [of "hi + 1"] n hi
    have "366 * (q6 + 1) \<le> DayFromYear (hi + 1)" by simp
    ultimately show ?thesis using m5 m6 by linarith
  qed
  then show "DayFromYear lo \<le> d" and "d < DayFromYear (hi + 1)" by simp_all
qed

lemma YearFromTime_Day: "DayFromYear y \<le> Day t \<longleftrightarrow> y \<le> YearFromTime t"
proof -
  define d where "d = Day t"
  define lo where "lo = 1970 + min (d div 365) (d div 366)"
  define hi where "hi = 1970 + max (d div 365) (d div 366)"
  let ?P = "\<lambda>y. DayFromYear y \<le> d"
  have Y: "YearFromTime t = last (filter ?P [lo..hi])"
    by (simp add: YearFromTime_def Let_def d_def lo_def hi_def)
  note b = YearFromTime_bounds [of d, folded lo_def hi_def]
  have s: "sorted [lo..hi]" by simp
  from b(1) have "lo \<in> set [lo..hi]" by simp
  from last_filter_sorted [OF s this, of ?P] b(2)
  have 1: "DayFromYear (YearFromTime t) \<le> d" and 2: "lo \<le> YearFromTime t"
    unfolding Y by simp_all
  show ?thesis
  proof
    assume "y \<le> YearFromTime t"
    with DayFromYear_le [of y "YearFromTime t"]
    have "DayFromYear y \<le> DayFromYear (YearFromTime t)" by simp
    with 1 show "DayFromYear y \<le> Day t" by (simp add: d_def)
  next
    assume "DayFromYear y \<le> Day t"
    then have P: "?P y" by (simp add: d_def)
    with b(3) have "DayFromYear y < DayFromYear (hi + 1)" by simp
    with DayFromYear_le [of "hi + 1" y] have "\<not> hi + 1 \<le> y" by simp
    then have h: "y \<le> hi" by simp
    show "y \<le> YearFromTime t"
    proof (cases "lo \<le> y")
      case True
      with h have "y \<in> set [lo..hi]" by simp
      from last_filter_sorted [OF s this, of ?P] P show ?thesis unfolding Y by simp
    next
      case False
      with 2 show ?thesis by simp
    qed
  qed
qed


lemma YearFromTime_largest: "TimeFromYear y \<le> t \<longleftrightarrow> y \<le> YearFromTime t"
proof -
  have p: "0 < msPerDay" by (simp add: msPerDay_def)
  from int_div_bounds [OF p, of t]
  have b: "msPerDay * Day t \<le> t" "t < msPerDay * (Day t + 1)" by (simp_all add: Day_def)
  have "TimeFromYear y \<le> t \<longleftrightarrow> DayFromYear y \<le> Day t"
  proof
    assume "TimeFromYear y \<le> t"
    with b(2) have "msPerDay * DayFromYear y < msPerDay * (Day t + 1)"
      by (simp add: TimeFromYear_def)
    with p have "DayFromYear y < Day t + 1" by (simp only: mult_less_cancel_left_pos)
    then show "DayFromYear y \<le> Day t" by simp
  next
    assume "DayFromYear y \<le> Day t"
    with p have "msPerDay * DayFromYear y \<le> msPerDay * Day t" by (simp only: mult_le_cancel_left_pos)
    with b(1) show "TimeFromYear y \<le> t" by (simp add: TimeFromYear_def)
  qed
  then show ?thesis by (simp only: YearFromTime_Day)
qed

text \<open>The readings of the local clock in Warsaw in the night of 26 October 2025, when
  summer time ends at 01:00:00Z and the clock is set back from 03:00 to 02:00.\<close>

lemma on_2025_10_26:
  assumes d: "Day l = 20387"
  shows "YearFromTime l = 2025" and "MonthFromTime l = 9" and "DateFromTime l = 26"
proof -
  show y: "YearFromTime l = 2025"
    by (simp add: YearFromTime_def d DayFromYear_def Let_def)
  have i: "InLeapYear l = 0" by (simp add: InLeapYear_def y DaysInYear_def)
  have w: "DayWithinYear l = 298" by (simp add: DayWithinYear_def y d DayFromYear_def)
  show m: "MonthFromTime l = 9" by (simp add: MonthFromTime_def w i)
  show "DateFromTime l = 26" by (simp add: DateFromTime_def w i m)
qed

lemma new_Date_0030Z:
  "new_Date Europe_Warsaw_2025 1761438600000
     = \<lparr>getFullYear = 2025, getMonth = 9, getDate = 26, getHours = 2, getMinutes = 30, getSeconds = 0\<rparr>"
proof -
  have l: "LocalTime Europe_Warsaw_2025 1761438600000 = 1761445800000"
    by (simp add: LocalTime_def Europe_Warsaw_2025_def)
  have d: "Day 1761445800000 = 20387" by (simp add: Day_def msPerDay_def)
  have h: "HourFromTime 1761445800000 = 2" "MinFromTime 1761445800000 = 30"
    "SecFromTime 1761445800000 = 0"
    by (simp_all add: HourFromTime_def MinFromTime_def SecFromTime_def)
  show ?thesis by (simp add: new_Date_def l on_2025_10_26 [OF d] h)
qed

lemma new_Date_0110Z:
  "new_Date Europe_Warsaw_2025 1761441000000
     = \<lparr>getFullYear = 2025, getMonth = 9, getDate = 26, getHours = 2, getMinutes = 10, getSeconds = 0\<rparr>"
proof -
  have l: "LocalTime Europe_Warsaw_2025 1761441000000 = 1761444600000"
    by (simp add: LocalTime_def Europe_Warsaw_2025_def)
  have d: "Day 1761444600000 = 20387" by (simp add: Day_def msPerDay_def)
  have h: "HourFromTime 1761444600000 = 2" "MinFromTime 1761444600000 = 10"
    "SecFromTime 1761444600000 = 0"
    by (simp_all add: HourFromTime_def MinFromTime_def SecFromTime_def)
  show ?thesis by (simp add: new_Date_def l on_2025_10_26 [OF d] h)
qed

lemma new_Date_2350Z:
  "new_Date Europe_Warsaw_2025 1761436200000
     = \<lparr>getFullYear = 2025, getMonth = 9, getDate = 26, getHours = 1, getMinutes = 50, getSeconds = 0\<rparr>"
proof -
  have l: "LocalTime Europe_Warsaw_2025 1761436200000 = 1761443400000"
    by (simp add: LocalTime_def Europe_Warsaw_2025_def)
  have d: "Day 1761443400000 = 20387" by (simp add: Day_def msPerDay_def)
  have h: "HourFromTime 1761443400000 = 1" "MinFromTime 1761443400000 = 50"
    "SecFromTime 1761443400000 = 0"
    by (simp_all add: HourFromTime_def MinFromTime_def SecFromTime_def)
  show ?thesis by (simp add: new_Date_def l on_2025_10_26 [OF d] h)
qed

lemma new_Date_0210Z:
  "new_Date Europe_Warsaw_2025 1761444600000
     = \<lparr>getFullYear = 2025, getMonth = 9, getDate = 26, getHours = 3, getMinutes = 10, getSeconds = 0\<rparr>"
proof -
  have l: "LocalTime Europe_Warsaw_2025 1761444600000 = 1761448200000"
    by (simp add: LocalTime_def Europe_Warsaw_2025_def)
  have d: "Day 1761448200000 = 20387" by (simp add: Day_def msPerDay_def)
  have h: "HourFromTime 1761448200000 = 3" "MinFromTime 1761448200000 = 10"
    "SecFromTime 1761448200000 = 0"
    by (simp_all add: HourFromTime_def MinFromTime_def SecFromTime_def)
  show ?thesis by (simp add: new_Date_def l on_2025_10_26 [OF d] h)
qed

lemma names_2025_10_26:
  "saveData_filename (new_Date Europe_Warsaw_2025 1761436200000) = ''szczegoly-wniosku_2025-10-26T01-50-00.json''"
  "saveData_filename (new_Date Europe_Warsaw_2025 1761438600000) = ''szczegoly-wniosku_2025-10-26T02-30-00.json''"
  "saveData_filename (new_Date Europe_Warsaw_2025 1761441000000) = ''szczegoly-wniosku_2025-10-26T02-10-00.json''"
  "saveData_filename (new_Date Europe_Warsaw_2025 1761444600000) = ''szczegoly-wniosku_2025-10-26T03-10-00.json''"
  unfolding new_Date_2350Z new_Date_0030Z new_Date_0110Z new_Date_0210Z
  by (simp_all add: filename_eval)



text \<open>A run writes at most one file, into the data directory of its own account and under
  the name made from the clock reading of the run.\<close>

lemma dirs_sendNotification: "dirs (sendNotification this t m w) = dirs w"
  by (simp add: sendNotification_def)

lemma dirs_sendEmail:
  "dirs (sendEmail this subj msg changes previousData currentData now w) = dirs w"
  by (simp add: sendEmail_def Let_def)

lemma run_try_saves_once:
  assumes "run_try this env w = Inr w'"
  shows "\<exists>entries data.
           dirs w (PIOChecker.accountId this) = Some entries
         \<and> dirs w' = (dirs w)(PIOChecker.accountId this :=
               Some (AList.update (saveData_filename (clock env)) (Inr data) entries))"
proof -
  let ?dataDir = "dirs w (PIOChecker.accountId this)"
  obtain previousData where p: "(case getLatestDataFile ?dataDir of
                  None \<Rightarrow> Inr None
                | Some file \<Rightarrow> map_sum id Some (readFile ?dataDir file)) = Inr previousData"
    using assms unfolding run_try_def Let_def by (cases "(case getLatestDataFile ?dataDir of
                  None \<Rightarrow> Inr None
                | Some file \<Rightarrow> map_sum id Some (readFile ?dataDir file))") simp_all
  obtain currentData where c: "scrapeData (AccountConfig.elementText (account this)) (browse env) = Inr currentData"
    using assms p unfolding run_try_def Let_def
    by (cases "scrapeData (AccountConfig.elementText (account this)) (browse env)") simp_all
  obtain filepath entries' where e: "saveData (clock env) currentData ?dataDir = Inr (filepath, entries')"
    using assms p c unfolding run_try_def Let_def
    by (cases "saveData (clock env) currentData ?dataDir") auto
  from e obtain entries where d: "?dataDir = Some entries"
    and u: "entries' = AList.update (saveData_filename (clock env)) (Inr currentData) entries"
    by (auto simp: saveData_def Let_def split: option.splits)
  from assms p c e have "dirs w' = (dirs w)(PIOChecker.accountId this := Some entries')"
    unfolding run_try_def Let_def
    by (auto simp: dirs_sendNotification dirs_sendEmail split: option.splits if_splits)
  with d u show ?thesis by blast
qed

lemma run_saves_at_most_once:
  "dirs (run this env w) = dirs w
   \<or> (\<exists>entries data.
           dirs w (PIOChecker.accountId this) = Some entries
         \<and> dirs (run this env w) = (dirs w)(PIOChecker.accountId this :=
               Some (AList.update (saveData_filename (clock env)) (Inr data) entries)))"
proof (cases "run_try this env w")
  case (Inl errorMessage)
  then show ?thesis by (simp add: run_def dirs_sendNotification dirs_sendEmail)
next
  case (Inr w')
  with run_try_saves_once [OF Inr] show ?thesis by (simp add: run_def)
qed

text \<open>
  Claim C4, as the claim states it, fails: \<^verbatim>\<open>fs.writeFileSync\<close> replaces a file of the
  same name, and the name has a resolution of one second. A second snapshot saved within
  the same second takes the place of the first.
\<close>

theorem saveData_same_second_counterexample:
  "snapshot ''old'' (Some []) (Some []) ''223199'' \<noteq> snapshot ''new'' (Some []) (Some []) ''223199''
   \<and> saveData (date_at 2025 5) (snapshot ''old'' (Some []) (Some []) ''223199'') (Some [])
       = Inr (''szczegoly-wniosku_2025-01-02T03-04-05.json'',
              [(''szczegoly-wniosku_2025-01-02T03-04-05.json'',
                Inr (snapshot ''old'' (Some []) (Some []) ''223199''))])
   \<and> saveData (date_at 2025 5) (snapshot ''new'' (Some []) (Some []) ''223199'')
         (Some [(''szczegoly-wniosku_2025-01-02T03-04-05.json'',
                 Inr (snapshot ''old'' (Some []) (Some []) ''223199''))])
       = Inr (''szczegoly-wniosku_2025-01-02T03-04-05.json'',
              [(''szczegoly-wniosku_2025-01-02T03-04-05.json'',
                Inr (snapshot ''new'' (Some []) (Some []) ''223199''))])"
  proof -
  have "saveData_filename (date_at 2025 5) = ''szczegoly-wniosku_2025-01-02T03-04-05.json''"
    by (simp add: filename_eval)
  then show ?thesis by (simp add: saveData_def Let_def snapshot_def)
qed

text \<open>
  Claim C4, amended. \<^const>\<open>saveData\<close> writes the snapshot under the name made from the
  clock reading, to the second. Different readings give different names, so a snapshot
  saved at another second stays as it is, like every other file of the directory; when
  there is no file of that name yet, the snapshot is a new entry after the others. One run
  saves at most once, so two snapshots of one run never meet.
\<close>

theorem saveData_new_name:
  "(\<exists>entries'. saveData now data (Some entries) = Inr (saveData_filename now, entries')
     \<and> map_of entries' (saveData_filename now) = Some (Inr data)
     \<and> (\<forall>d. d \<noteq> now \<longrightarrow> saveData_filename d \<noteq> saveData_filename now
                \<and> map_of entries' (saveData_filename d) = map_of entries (saveData_filename d))
     \<and> (\<forall>name. name \<noteq> saveData_filename now \<longrightarrow> map_of entries' name = map_of entries name)
     \<and> (saveData_filename now \<notin> fst ` set entries
          \<longrightarrow> entries' = entries @ [(saveData_filename now, Inr data)]))
   \<and> (dirs (run this env w) = dirs w
      \<or> (\<exists>before saved.
             dirs w (PIOChecker.accountId this) = Some before
           \<and> dirs (run this env w) = (dirs w)(PIOChecker.accountId this :=
                 Some (AList.update (saveData_filename (clock env)) (Inr saved) before))))"
proof (rule conjI)
  show "\<exists>entries'. saveData now data (Some entries) = Inr (saveData_filename now, entries')
     \<and> map_of entries' (saveData_filename now) = Some (Inr data)
     \<and> (\<forall>d. d \<noteq> now \<longrightarrow> saveData_filename d \<noteq> saveData_filename now
                \<and> map_of entries' (saveData_filename d) = map_of entries (saveData_filename d))
     \<and> (\<forall>name. name \<noteq> saveData_filename now \<longrightarrow> map_of entries' name = map_of entries name)
     \<and> (saveData_filename now \<notin> fst ` set entries
          \<longrightarrow> entries' = entries @ [(saveData_filename now, Inr data)])"
  proof (intro exI conjI allI impI)
    show "saveData now data (Some entries)
        = Inr (saveData_filename now, AList.update (saveData_filename now) (Inr data) entries)"
      by (simp add: saveData_def Let_def)
    show "map_of (AList.update (saveData_filename now) (Inr data) entries) (saveData_filename now)
        = Some (Inr data)"
      by (simp add: update_conv')
    show "saveData_filename d \<noteq> saveData_filename now" if "d \<noteq> now" for d
      using that saveData_filename_inj by blast
    then show "map_of (AList.update (saveData_filename now) (Inr data) entries) (saveData_filename d)
        = map_of entries (saveData_filename d)" if "d \<noteq> now" for d
      using that by (simp add: update_conv')
    show "map_of (AList.update (saveData_filename now) (Inr data) entries) name = map_of entries name"
      if "name \<noteq> saveData_filename now" for name
      using that by (simp add: update_conv')
    show "AList.update (saveData_filename now) (Inr data) entries
        = entries @ [(saveData_filename now, Inr data)]"
      if "saveData_filename now \<notin> fst ` set entries"
      using that by (rule update_new_key)
  qed
  show "dirs (run this env w) = dirs w
      \<or> (\<exists>before saved.
             dirs w (PIOChecker.accountId this) = Some before
           \<and> dirs (run this env w) = (dirs w)(PIOChecker.accountId this :=
                 Some (AList.update (saveData_filename (clock env)) (Inr saved) before)))"
    by (rule run_saves_at_most_once)
qed

theorem saveData_new_name_witness:
  "date_at 2025 5 \<noteq> date_at 2025 6
   \<and> saveData_filename (date_at 2025 5) \<noteq> saveData_filename (date_at 2025 6)
   \<and> (\<exists>entries'.
         saveData (date_at 2025 6) (snapshot ''new'' (Some []) (Some []) ''223199'')
           (Some [(saveData_filename (date_at 2025 5), Inr (snapshot ''old'' (Some []) (Some []) ''223199''))])
           = Inr (saveData_filename (date_at 2025 6), entries')
       \<and> map_of entries' (saveData_filename (date_at 2025 5))
           = Some (Inr (snapshot ''old'' (Some []) (Some []) ''223199''))
       \<and> map_of entries' (saveData_filename (date_at 2025 6))
           = Some (Inr (snapshot ''new'' (Some []) (Some []) ''223199'')))"
proof -
  have ne: "date_at 2025 5 \<noteq> date_at 2025 6" by (simp add: date_at_def)
  from saveData_new_name [of "date_at 2025 6" "snapshot ''new'' (Some []) (Some []) ''223199''"
      "[(saveData_filename (date_at 2025 5), Inr (snapshot ''old'' (Some []) (Some []) ''223199''))]"]
  obtain entries' where
    1: "saveData (date_at 2025 6) (snapshot ''new'' (Some []) (Some []) ''223199'')
           (Some [(saveData_filename (date_at 2025 5), Inr (snapshot ''old'' (Some []) (Some []) ''223199''))])
           = Inr (saveData_filename (date_at 2025 6), entries')"
    and 2: "map_of entries' (saveData_filename (date_at 2025 6))
           = Some (Inr (snapshot ''new'' (Some []) (Some []) ''223199''))"
    and 3: "\<forall>d. d \<noteq> date_at 2025 6 \<longrightarrow> saveData_filename d \<noteq> saveData_filename (date_at 2025 6)
                \<and> map_of entries' (saveData_filename d)
                  = map_of [(saveData_filename (date_at 2025 5), Inr (snapshot ''old'' (Some []) (Some []) ''223199''))]
                      (saveData_filename d)"
    by blast
  from 3 ne have "saveData_filename (date_at 2025 5) \<noteq> saveData_filename (date_at 2025 6)"
    and "map_of entries' (saveData_filename (date_at 2025 5))
           = Some (Inr (snapshot ''old'' (Some []) (Some []) ''223199''))"
    by simp_all
  with ne 1 2 show ?thesis by blast
qed

text \<open>
  The year is written without padding, so the order of the names is the order of the
  readings only among years with the same number of digits, the four digits of
  \<^const>\<open>valid_Date\<close>: the name of a reading in the year 9999 is greater than the name of one
  in the year 10000.
\<close>

lemma saveData_filename_five_digit_year:
  "reading_before (date_at 9999 5) (date_at 10000 5)
   \<and> saveData_filename (date_at 10000 5) < saveData_filename (date_at 9999 5)"
proof -
  have "saveData_filename (date_at 9999 5) = ''szczegoly-wniosku_9999-01-02T03-04-05.json''"
    and "saveData_filename (date_at 10000 5) = ''szczegoly-wniosku_10000-01-02T03-04-05.json''"
    by (simp_all add: filename_eval)
  moreover have "''szczegoly-wniosku_10000-01-02T03-04-05.json''
      < ''szczegoly-wniosku_9999-01-02T03-04-05.json''"
    by code_simp
  ultimately show ?thesis by (simp add: reading_before_def date_at_def)
qed




section \<open>Properties of the report\<close>

text \<open>The report is its head with the list of changes, the section of the tables, the
  section of the numbers and its foot, one after the other.\<close>

lemma formatTablesForEmail_empty:
  "formatTablesForEmail None = ''<p>No table data available</p>''"
  "formatTablesForEmail (Some []) = ''<p>No table data available</p>''"
  by (simp_all add: formatTablesForEmail_def)

lemma createDetailedEmailContent_parts:
  "createDetailedEmailContent this now changes previousData currentData =
     (report_head this now @ concat (map (\<lambda>change. ''<li>'' @ change @ ''</li>'') changes) @ ''</ul>'')
     @ (if ''Table data has changed'' \<in> set changes
        then ''<h3>Table Changes:</h3>''
             @ (''<h4>Previous Data:</h4>''
                @ formatTablesForEmail (Some (or_empty (tables (fields' previousData)))))
             @ (''<h4>Current Data:</h4>''
                @ formatTablesForEmail (Some (or_empty (tables (fields' currentData)))))
        else [])
     @ (if ''Numbers/dates have changed'' \<in> set changes
        then ''<h3>Number/Date Changes:</h3>''
             @ (''<p><strong>Previous:</strong> ''
                @ join (or_empty (numbers (fields' previousData))) '', '' @ ''</p>'')
             @ (''<p><strong>Current:</strong> ''
                @ join (or_empty (numbers (fields' currentData))) '', '' @ ''</p>'')
        else [])
     @ report_foot this currentData"
  by (simp add: createDetailedEmailContent_def Let_def)

text \<open>
  Claim C7, as the claim states it, fails for the numbers: missing numbers are joined like
  an empty array, so the line of the previous numbers ends right after its label, and no
  text of the kind ``No data'' stands anywhere in the report.
\<close>

theorem createDetailedEmailContent_numbers_counterexample:
  "createDetailedEmailContent (checker_of ''a'') ''1/2/2025, 3:04:05 AM''
        [''Numbers/dates have changed'']
        (snapshot ''t'' (Some []) None ''223199'')
        (snapshot ''t'' (Some []) (Some [''10'']) ''223199'')
     = report_head (checker_of ''a'') ''1/2/2025, 3:04:05 AM''
       @ ''<li>Numbers/dates have changed</li></ul><h3>Number/Date Changes:</h3><p><strong>Previous:</strong> </p><p><strong>Current:</strong> 10</p>''
       @ report_foot (checker_of ''a'') (snapshot ''t'' (Some []) (Some [''10'']) ''223199'')
   \<and> \<not> sublist ''No ''
       (createDetailedEmailContent (checker_of ''a'') ''1/2/2025, 3:04:05 AM''
        [''Numbers/dates have changed'']
        (snapshot ''t'' (Some []) None ''223199'')
        (snapshot ''t'' (Some []) (Some [''10'']) ''223199''))"
proof
  show "createDetailedEmailContent (checker_of ''a'') ''1/2/2025, 3:04:05 AM''
        [''Numbers/dates have changed'']
        (snapshot ''t'' (Some []) None ''223199'')
        (snapshot ''t'' (Some []) (Some [''10'']) ''223199'')
     = report_head (checker_of ''a'') ''1/2/2025, 3:04:05 AM''
       @ ''<li>Numbers/dates have changed</li></ul><h3>Number/Date Changes:</h3><p><strong>Previous:</strong> </p><p><strong>Current:</strong> 10</p>''
       @ report_foot (checker_of ''a'') (snapshot ''t'' (Some []) (Some [''10'']) ''223199'')"
    by (simp add: createDetailedEmailContent_parts snapshot_def or_empty_def)
  show "\<not> sublist ''No ''
       (createDetailedEmailContent (checker_of ''a'') ''1/2/2025, 3:04:05 AM''
        [''Numbers/dates have changed'']
        (snapshot ''t'' (Some []) None ''223199'')
        (snapshot ''t'' (Some []) (Some [''10'']) ''223199''))"
    by code_simp
qed

text \<open>
  Claim C7, amended. When the section of the tables is in the report, missing or empty
  tables of either snapshot are shown as the paragraph \<^verbatim>\<open>No table data available\<close> under
  their heading. When the section of the numbers is in the report, missing or empty
  numbers of either snapshot are shown as the label with nothing after it.
\<close>

theorem createDetailedEmailContent_no_data:
  "(''Table data has changed'' \<in> set changes \<and> or_empty (tables (fields' previousData)) = []
      \<longrightarrow> sublist (''<h4>Previous Data:</h4>'' @ ''<p>No table data available</p>'')
            (createDetailedEmailContent this now changes previousData currentData))
   \<and> (''Table data has changed'' \<in> set changes \<and> or_empty (tables (fields' currentData)) = []
      \<longrightarrow> sublist (''<h4>Current Data:</h4>'' @ ''<p>No table data available</p>'')
            (createDetailedEmailContent this now changes previousData currentData))
   \<and> (''Numbers/dates have changed'' \<in> set changes \<and> or_empty (numbers (fields' previousData)) = []
      \<longrightarrow> sublist (''<p><strong>Previous:</strong> '' @ ''</p>'')
            (createDetailedEmailContent this now changes previousData currentData))
   \<and> (''Numbers/dates have changed'' \<in> set changes \<and> or_empty (numbers (fields' currentData)) = []
      \<longrightarrow> sublist (''<p><strong>Current:</strong> '' @ ''</p>'')
            (createDetailedEmailContent this now changes previousData currentData))"
proof (intro conjI impI)
  let ?html = "createDetailedEmailContent this now changes previousData currentData"
  let ?items = "report_head this now
      @ concat (map (\<lambda>change. ''<li>'' @ change @ ''</li>'') changes) @ ''</ul>''"
  let ?tables = "(if ''Table data has changed'' \<in> set changes
        then ''<h3>Table Changes:</h3>''
             @ (''<h4>Previous Data:</h4>''
                @ formatTablesForEmail (Some (or_empty (tables (fields' previousData)))))
             @ (''<h4>Current Data:</h4>''
                @ formatTablesForEmail (Some (or_empty (tables (fields' currentData)))))
        else [])"
  let ?numbers = "(if ''Numbers/dates have changed'' \<in> set changes
        then ''<h3>Number/Date Changes:</h3>''
             @ (''<p><strong>Previous:</strong> ''
                @ join (or_empty (numbers (fields' previousData))) '', '' @ ''</p>'')
             @ (''<p><strong>Current:</strong> ''
                @ join (or_empty (numbers (fields' currentData))) '', '' @ ''</p>'')
        else [])"
  let ?foot = "report_foot this currentData"
  have parts: "?html = ?items @ ?tables @ ?numbers @ ?foot"
    by (rule createDetailedEmailContent_parts)
  show "sublist (''<h4>Previous Data:</h4>'' @ ''<p>No table data available</p>'') ?html"
    if h: "''Table data has changed'' \<in> set changes \<and> or_empty (tables (fields' previousData)) = []"
  proof -
    from h have "?tables = ''<h3>Table Changes:</h3>''
        @ (''<h4>Previous Data:</h4>'' @ ''<p>No table data available</p>'')
        @ (''<h4>Current Data:</h4>''
           @ formatTablesForEmail (Some (or_empty (tables (fields' currentData)))))"
      by (simp only: if_True formatTablesForEmail_empty)
    then have "?html = (?items @ ''<h3>Table Changes:</h3>'')
        @ (''<h4>Previous Data:</h4>'' @ ''<p>No table data available</p>'')
        @ ((''<h4>Current Data:</h4>''
           @ formatTablesForEmail (Some (or_empty (tables (fields' currentData)))))
           @ ?numbers @ ?foot)"
      unfolding parts by (simp only: append_assoc)
    then show ?thesis by (simp only: sublist_appendI)
  qed
  show "sublist (''<h4>Current Data:</h4>'' @ ''<p>No table data available</p>'') ?html"
    if h: "''Table data has changed'' \<in> set changes \<and> or_empty (tables (fields' currentData)) = []"
  proof -
    from h have "?tables = ''<h3>Table Changes:</h3>''
        @ (''<h4>Previous Data:</h4>''
           @ formatTablesForEmail (Some (or_empty (tables (fields' previousData)))))
        @ (''<h4>Current Data:</h4>'' @ ''<p>No table data available</p>'')"
      by (simp only: if_True formatTablesForEmail_empty)
    then have "?html = (?items @ ''<h3>Table Changes:</h3>''
        @ (''<h4>Previous Data:</h4>''
           @ formatTablesForEmail (Some (or_empty (tables (fields' previousData))))))
        @ (''<h4>Current Data:</h4>'' @ ''<p>No table data available</p>'')
        @ (?numbers @ ?foot)"
      unfolding parts by (simp only: append_assoc)
    then show ?thesis by (simp only: sublist_appendI)
  qed
  show "sublist (''<p><strong>Previous:</strong> '' @ ''</p>'') ?html"
    if h: "''Numbers/dates have changed'' \<in> set changes \<and> or_empty (numbers (fields' previousData)) = []"
  proof -
    from h have "?numbers = ''<h3>Number/Date Changes:</h3>''
             @ (''<p><strong>Previous:</strong> '' @ ''</p>'')
             @ (''<p><strong>Current:</strong> ''
                @ join (or_empty (numbers (fields' currentData))) '', '' @ ''</p>'')"
      by (simp only: if_True join.simps append_Nil)
    then have "?html = (?items @ ?tables @ ''<h3>Number/Date Changes:</h3>'')
             @ (''<p><strong>Previous:</strong> '' @ ''</p>'')
             @ ((''<p><strong>Current:</strong> ''
                @ join (or_empty (numbers (fields' currentData))) '', '' @ ''</p>'') @ ?foot)"
      unfolding parts by (simp only: append_assoc)
    then show ?thesis by (simp only: sublist_appendI)
  qed
  show "sublist (''<p><strong>Current:</strong> '' @ ''</p>'') ?html"
    if h: "''Numbers/dates have changed'' \<in> set changes \<and> or_empty (numbers (fields' currentData)) = []"
  proof -
    from h have "?numbers = ''<h3>Number/Date Changes:</h3>''
             @ (''<p><strong>Previous:</strong> ''
                @ join (or_empty (numbers (fields' previousData))) '', '' @ ''</p>'')
             @ (''<p><strong>Current:</strong> '' @ ''</p>'')"
      by (simp only: if_True join.simps append_Nil)
    then have "?html = (?items @ ?tables @ ''<h3>Number/Date Changes:</h3>''
             @ (''<p><strong>Previous:</strong> ''
                @ join (or_empty (numbers (fields' previousData))) '', '' @ ''</p>''))
             @ (''<p><strong>Current:</strong> '' @ ''</p>'')
             @ ?foot"
      unfolding parts by (simp only: append_assoc)
    then show ?thesis by (simp only: sublist_appendI)
  qed
qed

theorem createDetailedEmailContent_no_data_witness:
  "sublist (''<h4>Previous Data:</h4>'' @ ''<p>No table data available</p>'')
     (createDetailedEmailContent (checker_of ''a'') ''1/2/2025, 3:04:05 AM''
        [''Table data has changed'', ''Numbers/dates have changed'']
        (snapshot ''t'' None None ''223199'')
        (snapshot ''t'' (Some [[[''Etap'', ''10'']]]) (Some [''10'']) ''223199''))
   \<and> sublist (''<p><strong>Previous:</strong> '' @ ''</p>'')
     (createDetailedEmailContent (checker_of ''a'') ''1/2/2025, 3:04:05 AM''
        [''Table data has changed'', ''Numbers/dates have changed'']
        (snapshot ''t'' None None ''223199'')
        (snapshot ''t'' (Some [[[''Etap'', ''10'']]]) (Some [''10'']) ''223199''))"
proof -
  have "or_empty (tables (fields' (snapshot ''t'' None None ''223199''))) = []"
    and "or_empty (numbers (fields' (snapshot ''t'' None None ''223199''))) = []"
    by (simp_all add: snapshot_def or_empty_def)
  with createDetailedEmailContent_no_data
    [where changes = "[''Table data has changed'', ''Numbers/dates have changed'']"
       and previousData = "snapshot ''t'' None None ''223199''"
       and currentData = "snapshot ''t'' (Some [[[''Etap'', ''10'']]]) (Some [''10'']) ''223199''"
       and this = "checker_of ''a''" and now = "''1/2/2025, 3:04:05 AM''"]
  show ?thesis by simp
qed

section \<open>Properties of a run\<close>

lemma notifications_sendNotification:
  "notifications (sendNotification this t m w)
     = notifications w @ [\<lparr> title = t @ '' - '' @ PIOChecker.accountId this, message = m \<rparr>]"
  by (simp add: sendNotification_def)

lemma notifications_sendEmail:
  "notifications (sendEmail this subj msg changes previousData currentData now w) = notifications w"
  by (simp add: sendEmail_def Let_def)

lemma report_notifies:
  assumes w1: "notifications w1 = notifications w"
  shows "\<exists>kind msg.
           kind \<in> set [''PIO Checker - First Run'', ''PIO Checker - No Changes'',
                       ''PIO Checker - Changes Detected!'']
         \<and> notifications
              (case previousData of
                 None \<Rightarrow>
                   sendNotification this ''PIO Checker - First Run''
                     ''Baseline data has been saved. Future runs will detect changes.'' w1
               | Some prev \<Rightarrow>
                   if length (compareData prev currentData) = 0
                   then sendNotification this ''PIO Checker - No Changes''
                          ''Your application status remains unchanged.'' w1
                   else sendEmail this ''PIO Checker - Changes Detected!''
                          ''Changes have been detected in your application status.''
                          (Some (compareData prev currentData)) (Some prev) (Some currentData)
                          (toLocaleString env)
                          (sendNotification this ''PIO Checker - Changes Detected!''
                             (''Changes found: '' @ join (compareData prev currentData) '', '') w1))
             = notifications w
               @ [\<lparr> title = kind @ '' - '' @ PIOChecker.accountId this, message = msg \<rparr>]"
proof (cases previousData)
  case None
  with w1 show ?thesis
    by (intro exI [of _ "''PIO Checker - First Run''"] exI conjI)
       (simp_all add: notifications_sendNotification)
next
  case (Some prev)
  show ?thesis
  proof (cases "length (compareData prev currentData) = 0")
    case True
    with Some w1 show ?thesis
      by (intro exI [of _ "''PIO Checker - No Changes''"] exI conjI)
         (simp_all add: notifications_sendNotification)
  next
    case False
    with Some w1 show ?thesis
      by (intro exI [of _ "''PIO Checker - Changes Detected!''"] exI conjI)
         (simp_all add: notifications_sendNotification notifications_sendEmail)
  qed
qed

lemma run_try_Inr:
  assumes "run_try this env w = Inr w'"
  shows "\<exists>previousData currentData entries.
     w' = (case previousData of
                 None \<Rightarrow>
                   sendNotification this ''PIO Checker - First Run''
                     ''Baseline data has been saved. Future runs will detect changes.''
                     (w\<lparr>dirs := (dirs w)(PIOChecker.accountId this := Some entries)\<rparr>)
               | Some prev \<Rightarrow>
                   if length (compareData prev currentData) = 0
                   then sendNotification this ''PIO Checker - No Changes''
                          ''Your application status remains unchanged.''
                          (w\<lparr>dirs := (dirs w)(PIOChecker.accountId this := Some entries)\<rparr>)
                   else sendEmail this ''PIO Checker - Changes Detected!''
                          ''Changes have been detected in your application status.''
                          (Some (compareData prev currentData)) (Some prev) (Some currentData)
                          (toLocaleString env)
                          (sendNotification this ''PIO Checker - Changes Detected!''
                             (''Changes found: '' @ join (compareData prev currentData) '', '')
                             (w\<lparr>dirs := (dirs w)(PIOChecker.accountId this := Some entries)\<rparr>)))"
proof -
  let ?dataDir = "dirs w (PIOChecker.accountId this)"
  obtain previousData where p: "(case getLatestDataFile ?dataDir of
                  None \<Rightarrow> Inr None
                | Some file \<Rightarrow> map_sum id Some (readFile ?dataDir file)) = Inr previousData"
    using assms unfolding run_try_def Let_def by (cases "(case getLatestDataFile ?dataDir of
                  None \<Rightarrow> Inr None
                | Some file \<Rightarrow> map_sum id Some (readFile ?dataDir file))") simp_all
  obtain currentData where c: "scrapeData (AccountConfig.elementText (account this)) (browse env) = Inr currentData"
    using assms p unfolding run_try_def Let_def
    by (cases "scrapeData (AccountConfig.elementText (account this)) (browse env)") simp_all
  obtain filepath entries where e: "saveData (clock env) currentData ?dataDir = Inr (filepath, entries)"
    using assms p c unfolding run_try_def Let_def
    by (cases "saveData (clock env) currentData ?dataDir") auto
  from assms p c e show ?thesis
    unfolding run_try_def Let_def
    by (intro exI [of _ previousData] exI [of _ currentData] exI [of _ entries])
       (auto split: option.splits if_splits)
qed

lemma run_try_notifies:
  assumes "run_try this env w = Inr w'"
  shows "\<exists>kind msg.
           kind \<in> set [''PIO Checker - First Run'', ''PIO Checker - No Changes'',
                       ''PIO Checker - Changes Detected!'']
         \<and> notifications w' = notifications w
               @ [\<lparr> title = kind @ '' - '' @ PIOChecker.accountId this, message = msg \<rparr>]"
proof -
  from run_try_Inr [OF assms] obtain previousData currentData entries where
    w': "w' = (case previousData of
                 None \<Rightarrow>
                   sendNotification this ''PIO Checker - First Run''
                     ''Baseline data has been saved. Future runs will detect changes.''
                     (w\<lparr>dirs := (dirs w)(PIOChecker.accountId this := Some entries)\<rparr>)
               | Some prev \<Rightarrow>
                   if length (compareData prev currentData) = 0
                   then sendNotification this ''PIO Checker - No Changes''
                          ''Your application status remains unchanged.''
                          (w\<lparr>dirs := (dirs w)(PIOChecker.accountId this := Some entries)\<rparr>)
                   else sendEmail this ''PIO Checker - Changes Detected!''
                          ''Changes have been detected in your application status.''
                          (Some (compareData prev currentData)) (Some prev) (Some currentData)
                          (toLocaleString env)
                          (sendNotification this ''PIO Checker - Changes Detected!''
                             (''Changes found: '' @ join (compareData prev currentData) '', '')
                             (w\<lparr>dirs := (dirs w)(PIOChecker.accountId this := Some entries)\<rparr>)))"
    by blast
  have "notifications (w\<lparr>dirs := (dirs w)(PIOChecker.accountId this := Some entries)\<rparr>)
          = notifications w" by simp
  from report_notifies [OF this, where previousData = previousData and this = this
      and currentData = currentData and env = env] show ?thesis
    unfolding w' .
qed

text \<open>
  Claim C6. A run hands exactly one notification to the notifier, whatever the directory,
  the browser and the clock do, and its title is one of four: first run, no changes,
  changes detected, error. \<^const>\<open>run\<close> is a total function, the retry loop of
  \<^const>\<open>scrapeData_from\<close> included.
\<close>

theorem run_notifies_once:
  "\<exists>kind msg.
       kind \<in> set [''PIO Checker - First Run'', ''PIO Checker - No Changes'',
                   ''PIO Checker - Changes Detected!'', ''PIO Checker - Error'']
     \<and> notifications (run this env w) = notifications w
           @ [\<lparr> title = kind @ '' - '' @ PIOChecker.accountId this, message = msg \<rparr>]"
proof (cases "run_try this env w")
  case (Inl errorMessage)
  then have "notifications (run this env w) = notifications w
      @ [\<lparr> title = ''PIO Checker - Error'' @ '' - '' @ PIOChecker.accountId this,
           message = ''An error occurred: '' @ errorMessage \<rparr>]"
    by (simp add: run_def notifications_sendNotification notifications_sendEmail)
  then show ?thesis by (intro exI [of _ "''PIO Checker - Error''"] exI conjI) simp_all
next
  case (Inr w')
  from run_try_notifies [OF Inr] obtain kind msg where
    k: "kind \<in> set [''PIO Checker - First Run'', ''PIO Checker - No Changes'',
                     ''PIO Checker - Changes Detected!'']"
    and n: "notifications w' = notifications w
               @ [\<lparr> title = kind @ '' - '' @ PIOChecker.accountId this, message = msg \<rparr>]"
    by blast
  from Inr n have "notifications (run this env w) = notifications w
               @ [\<lparr> title = kind @ '' - '' @ PIOChecker.accountId this, message = msg \<rparr>]"
    by (simp add: run_def)
  with k show ?thesis by (intro exI [of _ kind] exI [of _ msg] conjI) auto
qed

theorem run_notifies_once_witness:
  "map title (notifications (run (checker_of ''a'') (reaching ''etap 10'' (date_at 2025 5)) (world_with (Some []))))
     = [''PIO Checker - First Run - a'']
   \<and> map title (notifications (run (checker_of ''a'') (reaching ''etap 10'' (date_at 2025 5))
         (world_with (Some (previous_file ''etap 10'')))))
     = [''PIO Checker - No Changes - a'']
   \<and> map title (notifications (run (checker_of ''a'') (reaching ''etap 11'' (date_at 2025 5))
         (world_with (Some (previous_file ''etap 10'')))))
     = [''PIO Checker - Changes Detected! - a'']
   \<and> map title (notifications (run (checker_of ''a'') (failing (date_at 2025 5))
         (world_with (Some (previous_file ''etap 10'')))))
     = [''PIO Checker - Error - a'']"
proof -
  have 1: "map title (notifications (run (checker_of ''a'') (reaching ''etap 10'' (date_at 2025 5)) (world_with (Some []))))
     = [''PIO Checker - First Run - a'']" by code_simp
  have 2: "map title (notifications (run (checker_of ''a'') (reaching ''etap 10'' (date_at 2025 5))
         (world_with (Some (previous_file ''etap 10'')))))
     = [''PIO Checker - No Changes - a'']" by code_simp
  have 3: "map title (notifications (run (checker_of ''a'') (reaching ''etap 11'' (date_at 2025 5))
         (world_with (Some (previous_file ''etap 10'')))))
     = [''PIO Checker - Changes Detected! - a'']" by code_simp
  have 4: "map title (notifications (run (checker_of ''a'') (failing (date_at 2025 5))
         (world_with (Some (previous_file ''etap 10'')))))
     = [''PIO Checker - Error - a'']" by code_simp
  from 1 2 3 4 run_notifies_once [of "checker_of ''a''" "failing (date_at 2025 5)"
      "world_with (Some (previous_file ''etap 10''))"]
  show ?thesis by simp
qed

section \<open>Properties of \<^verbatim>\<open>runAll\<close>\<close>

text \<open>The list of results has one entry for each account, in the order of the accounts,
  and what happens during the runs has no part in it.\<close>

lemma fst_runAll_loop:
  "fst (runAll_loop penv accounts results w) = results @ map (\<lambda>(accountConfig, env). result_of accountConfig) accounts"
proof (induction accounts arbitrary: results w)
  case Nil
  then show ?case by simp
next
  case (Cons a accounts)
  obtain accountConfig env where a: "a = (accountConfig, env)" by (cases a)
  show ?case
  proof (cases "login accountConfig = [] \<or> password accountConfig = []
         \<or> AccountConfig.elementText accountConfig = []")
    case True
    then show ?thesis
      unfolding a by (simp add: Cons.IH new_PIOChecker_def Let_def result_of_def)
  next
    case False
    then show ?thesis
      unfolding a by (simp add: Cons.IH new_PIOChecker_def Let_def result_of_def)
  qed
qed

lemma fst_runAll:
  "fst (runAll penv accounts w) = map (\<lambda>(accountConfig, env). result_of accountConfig) accounts"
  by (simp add: runAll_def fst_runAll_loop)

lemma runAll_one_entry_per_account:
  "map result.accountId (fst (runAll penv accounts w)) = map (\<lambda>(accountConfig, env). login accountConfig) accounts"
  by (simp add: fst_runAll result_of_def case_prod_unfold)

text \<open>
  Claim C1 at three accounts of which the second cannot be scraped: \<^const>\<open>scrapeData\<close>
  fails for it after three attempts, and its entry in the list of results says
  \<open>success\<close>, without an error message, like the entries of the other two. The run of
  the second account has caught the failure itself: it has sent the error notification
  with the message and returned.
\<close>

theorem runAll_fetch_failure:
  "scrapeData (AccountConfig.elementText (account_of ''second'')) (browse (failing (date_at 2025 6)))
     = Inl ''Failed to scrape data after 3 attempts: Navigation timeout of 60000 ms exceeded''
   \<and> fst (runAll no_mail
          [(account_of ''first'', reaching ''etap 10'' (date_at 2025 5)),
           (account_of ''second'', failing (date_at 2025 6)),
           (account_of ''third'', reaching ''etap 10'' (date_at 2025 7))] empty_world)
     = [\<lparr> accountId = ''first'', status = ''success'', error = None \<rparr>,
        \<lparr> accountId = ''second'', status = ''success'', error = None \<rparr>,
        \<lparr> accountId = ''third'', status = ''success'', error = None \<rparr>]
   \<and> snd (new_PIOChecker no_mail (account_of ''second'') empty_world) = Inr (checker_of ''second'')
   \<and> notifications (run (checker_of ''second'') (failing (date_at 2025 6)) (world_with (Some [])))
     = [\<lparr> title = ''PIO Checker - Error - second'',
          message = ''An error occurred: Failed to scrape data after 3 attempts: Navigation timeout of 60000 ms exceeded'' \<rparr>]"
proof (intro conjI)
  show "scrapeData (AccountConfig.elementText (account_of ''second'')) (browse (failing (date_at 2025 6)))
     = Inl ''Failed to scrape data after 3 attempts: Navigation timeout of 60000 ms exceeded''"
    by code_simp
  show "fst (runAll no_mail
          [(account_of ''first'', reaching ''etap 10'' (date_at 2025 5)),
           (account_of ''second'', failing (date_at 2025 6)),
           (account_of ''third'', reaching ''etap 10'' (date_at 2025 7))] empty_world)
     = [\<lparr> accountId = ''first'', status = ''success'', error = None \<rparr>,
        \<lparr> accountId = ''second'', status = ''success'', error = None \<rparr>,
        \<lparr> accountId = ''third'', status = ''success'', error = None \<rparr>]"
    by (simp add: fst_runAll result_of_def account_of_def)
  show "snd (new_PIOChecker no_mail (account_of ''second'') empty_world) = Inr (checker_of ''second'')"
    by (simp add: new_PIOChecker_def Let_def no_mail_def account_of_def checker_of_def)
  show "notifications (run (checker_of ''second'') (failing (date_at 2025 6)) (world_with (Some [])))
     = [\<lparr> title = ''PIO Checker - Error - second'',
          message = ''An error occurred: Failed to scrape data after 3 attempts: Navigation timeout of 60000 ms exceeded'' \<rparr>]"
    by code_simp
qed

end
